theory Spec2Isabelle
  imports Main "HOL-Library.Sublist"
begin

section \<open>Response text: the brace match\<close>

text \<open>
  Every operation that expects JSON from a remote model runs
  \<^verbatim>\<open>response.match(/\{[\s\S]*\}/)\<close> on the response text. The pattern is a sequence of
  three atoms: the literal \<^verbatim>\<open>{\<close>, the greedy star over the class \<^verbatim>\<open>[\s\S]\<close> (any code
  unit, line breaks included) and the literal \<^verbatim>\<open>}\<close>. The matcher below is the backtracking
  semantics of such a sequence: a greedy star first tries to take one more code unit and only
  then lets the rest of the pattern match where it stands; \<open>search\<close> tries every start position
  from the left, as a match without the global flag does.
\<close>

datatype atom = Lit char | AnyStar

fun match_here :: "atom list \<Rightarrow> string \<Rightarrow> string option" where
  "match_here [] s = Some []"
| "match_here (Lit c # r) [] = None"
| "match_here (Lit c # r) (x # xs) =
     (if x = c then map_option (Cons x) (match_here r xs) else None)"
| "match_here (AnyStar # r) [] = match_here r []"
| "match_here (AnyStar # r) (x # xs) =
     (case match_here (AnyStar # r) xs of
        Some m \<Rightarrow> Some (x # m)
      | None \<Rightarrow> match_here r (x # xs))"

fun search :: "atom list \<Rightarrow> string \<Rightarrow> string option" where
  "search p [] = match_here p []"
| "search p (x # xs) =
     (case match_here p (x # xs) of Some m \<Rightarrow> Some m | None \<Rightarrow> search p xs)"

definition jsonPattern :: "atom list" where
  "jsonPattern = [Lit CHR ''{'', AnyStar, Lit CHR ''}'']"

text \<open>\<open>responseMatch r\<close> is \<^verbatim>\<open>jsonMatch\<close>: \<open>None\<close> for \<^verbatim>\<open>null\<close>, else \<^verbatim>\<open>jsonMatch[0]\<close>.\<close>

definition responseMatch :: "string \<Rightarrow> string option" where
  "responseMatch response = search jsonPattern response"

text \<open>
  The span the specification describes, written from its words: from the first \<^verbatim>\<open>{\<close> of the
  text through the last \<^verbatim>\<open>}\<close> of the text.
\<close>

definition first_to_last :: "string \<Rightarrow> string" where
  "first_to_last response =
     rev (dropWhile (\<lambda>c. c \<noteq> CHR ''}'') (rev (dropWhile (\<lambda>c. c \<noteq> CHR ''{'') response)))"

section \<open>Response text: JSON.parse\<close>

text \<open>
  \<^verbatim>\<open>JSON.parse\<close> is a built-in of the engine. It is modelled by a parser for the JSON
  grammar that returns the syntax tree of the text: a number is kept as its literal, a string as
  the text between its quotes with the escapes checked and left as written, an object as the
  list of its members in the order of the text. The JavaScript value is a function of this tree,
  so two texts with the same tree yield the same value. The fuel of the three mutually recursive
  functions is the length of the text plus one; every recursive call follows the consumption of
  at least one character. Strings are \<^typ>\<open>string\<close>: code units up to 255.
\<close>

datatype json =
    JNull
  | JBool bool
  | JNumber string
  | JString string
  | JArray "json list"
  | JObject "(string \<times> json) list"

definition is_ws :: "char \<Rightarrow> bool" where
  "is_ws c = (c = CHR 0x20 \<or> c = CHR 0x09 \<or> c = CHR 0x0A \<or> c = CHR 0x0D)"

definition skip_ws :: "string \<Rightarrow> string" where
  "skip_ws s = dropWhile is_ws s"

definition is_digit :: "char \<Rightarrow> bool" where
  "is_digit c = (48 \<le> (of_char c :: nat) \<and> (of_char c :: nat) \<le> 57)"

definition is_hex :: "char \<Rightarrow> bool" where
  "is_hex c = (is_digit c \<or> c \<in> set ''abcdefABCDEF'')"

fun scan_string :: "string \<Rightarrow> (string \<times> string) option" where
  "scan_string [] = None"
| "scan_string (c # cs) =
     (if c = CHR 0x22 then Some ([], cs)
      else if c = CHR 0x5C then
        (case cs of
           [] \<Rightarrow> None
         | e # r \<Rightarrow>
             if e \<in> set [CHR 0x22, CHR 0x5C, CHR ''/'', CHR ''b'', CHR ''f'', CHR ''n'', CHR ''r'', CHR ''t'']
             then map_option (\<lambda>(b, r'). (c # e # b, r')) (scan_string r)
             else if e = CHR ''u'' \<and> 4 \<le> length r \<and> list_all is_hex (take 4 r)
             then map_option (\<lambda>(b, r'). (c # e # take 4 r @ b, r')) (scan_string (drop 4 r))
             else None)
      else if (of_char c :: nat) < 32 then None
      else map_option (\<lambda>(b, r'). (c # b, r')) (scan_string cs))"

definition scan_digits :: "string \<Rightarrow> (string \<times> string) option" where
  "scan_digits s =
     (if takeWhile is_digit s = [] then None
      else Some (takeWhile is_digit s, dropWhile is_digit s))"

definition scan_int :: "string \<Rightarrow> (string \<times> string) option" where
  "scan_int s =
     (case s of
        [] \<Rightarrow> None
      | d # r \<Rightarrow> if d = CHR ''0'' then Some ([d], r) else scan_digits s)"

definition scan_frac :: "string \<Rightarrow> (string \<times> string) option" where
  "scan_frac s =
     (case s of
        [] \<Rightarrow> Some ([], s)
      | d # r \<Rightarrow>
          if d = CHR ''.'' then map_option (\<lambda>(ds, r'). (d # ds, r')) (scan_digits r)
          else Some ([], s))"

definition scan_exp :: "string \<Rightarrow> (string \<times> string) option" where
  "scan_exp s =
     (case s of
        [] \<Rightarrow> Some ([], s)
      | e # r \<Rightarrow>
          if e = CHR ''e'' \<or> e = CHR ''E'' then
            (case r of
               [] \<Rightarrow> None
             | g # r' \<Rightarrow>
                 if g = CHR ''+'' \<or> g = CHR ''-''
                 then map_option (\<lambda>(ds, r''). (e # g # ds, r'')) (scan_digits r')
                 else map_option (\<lambda>(ds, r''). (e # ds, r'')) (scan_digits r))
          else Some ([], s))"

definition scan_number :: "string \<Rightarrow> (string \<times> string) option" where
  "scan_number s =
     (let (sign, s0) = (case s of [] \<Rightarrow> ([], s) | c # r \<Rightarrow> if c = CHR ''-'' then ([c], r) else ([], s))
      in case scan_int s0 of
           None \<Rightarrow> None
         | Some (i, s1) \<Rightarrow>
             (case scan_frac s1 of
                None \<Rightarrow> None
              | Some (f, s2) \<Rightarrow>
                  (case scan_exp s2 of
                     None \<Rightarrow> None
                   | Some (e, s3) \<Rightarrow> Some (sign @ i @ f @ e, s3))))"

definition scan_literal :: "string \<Rightarrow> json \<Rightarrow> string \<Rightarrow> (json \<times> string) option" where
  "scan_literal w v s = (if take (length w) s = w then Some (v, drop (length w) s) else None)"

fun parse_value :: "nat \<Rightarrow> string \<Rightarrow> (json \<times> string) option"
and parse_elements :: "nat \<Rightarrow> string \<Rightarrow> (json list \<times> string) option"
and parse_members :: "nat \<Rightarrow> string \<Rightarrow> ((string \<times> json) list \<times> string) option" where
  "parse_value 0 s = None"
| "parse_value (Suc n) s =
     (case s of
        [] \<Rightarrow> None
      | c # cs \<Rightarrow>
          if c = CHR ''{'' then
            (case skip_ws cs of
               [] \<Rightarrow> None
             | d # ds \<Rightarrow>
                 if d = CHR ''}'' then Some (JObject [], ds)
                 else map_option (\<lambda>(ms, r). (JObject ms, r)) (parse_members n (d # ds)))
          else if c = CHR ''['' then
            (case skip_ws cs of
               [] \<Rightarrow> None
             | d # ds \<Rightarrow>
                 if d = CHR '']'' then Some (JArray [], ds)
                 else map_option (\<lambda>(vs, r). (JArray vs, r)) (parse_elements n (d # ds)))
          else if c = CHR 0x22 then map_option (\<lambda>(b, r). (JString b, r)) (scan_string cs)
          else if c = CHR ''t'' then scan_literal ''true'' (JBool True) s
          else if c = CHR ''f'' then scan_literal ''false'' (JBool False) s
          else if c = CHR ''n'' then scan_literal ''null'' JNull s
          else map_option (\<lambda>(t, r). (JNumber t, r)) (scan_number s))"
| "parse_elements 0 s = None"
| "parse_elements (Suc n) s =
     (case parse_value n s of
        None \<Rightarrow> None
      | Some (v, r) \<Rightarrow>
          (case skip_ws r of
             [] \<Rightarrow> None
           | c # r' \<Rightarrow>
               if c = CHR '']'' then Some ([v], r')
               else if c = CHR '','' then
                 map_option (\<lambda>(vs, r''). (v # vs, r'')) (parse_elements n (skip_ws r'))
               else None))"
| "parse_members 0 s = None"
| "parse_members (Suc n) s =
     (case s of
        [] \<Rightarrow> None
      | q # cs \<Rightarrow>
          if q \<noteq> CHR 0x22 then None
          else
            (case scan_string cs of
               None \<Rightarrow> None
             | Some (k, r) \<Rightarrow>
                 (case skip_ws r of
                    [] \<Rightarrow> None
                  | c # r' \<Rightarrow>
                      if c \<noteq> CHR '':'' then None
                      else
                        (case parse_value n (skip_ws r') of
                           None \<Rightarrow> None
                         | Some (v, r'') \<Rightarrow>
                             (case skip_ws r'' of
                                [] \<Rightarrow> None
                              | c' # r3 \<Rightarrow>
                                  if c' = CHR ''}'' then Some ([(k, v)], r3)
                                  else if c' = CHR '','' then
                                    map_option (\<lambda>(ms, r4). ((k, v) # ms, r4))
                                      (parse_members n (skip_ws r3))
                                  else None)))))"

text \<open>
  Errors as values. \<open>Error m\<close> is \<^verbatim>\<open>new Error(m)\<close> (also the rejection of a child
  process or of a remote call, whose message the environment gives); \<open>SyntaxError\<close> is what
  \<^verbatim>\<open>JSON.parse\<close> throws; \<open>TypeError\<close> is what a read of a property of \<^verbatim>\<open>undefined\<close> or a
  loop over a value that is no list throws; \<open>SystemError c\<close> is what a failed file-system call
  throws.
\<close>

datatype errno = ENOENT | ENOTDIR | EISDIR | EEXIST

datatype error = Error string | SyntaxError | TypeError | SystemError errno

definition JSON_parse :: "string \<Rightarrow> error + json" where
  "JSON_parse s =
     (case parse_value (Suc (length s)) (skip_ws s) of
        None \<Rightarrow> Inl SyntaxError
      | Some (v, r) \<Rightarrow> if skip_ws r = [] then Inr v else Inl SyntaxError)"

text \<open>
  The tail of each operation that expects JSON: the match, the context-specific error when there
  is none, and \<^verbatim>\<open>JSON.parse(jsonMatch[0])\<close>.
\<close>

definition generateDesign_parse :: "string \<Rightarrow> error + json" where
  "generateDesign_parse response =
     (case responseMatch response of
        None \<Rightarrow> Inl (Error ''Failed to parse design specification from Gemini response'')
      | Some m \<Rightarrow> JSON_parse m)"

definition analyzeImage_parse :: "string \<Rightarrow> error + json" where
  "analyzeImage_parse response =
     (case responseMatch response of
        None \<Rightarrow> Inl (Error ''Failed to parse design from image'')
      | Some m \<Rightarrow> JSON_parse m)"

definition refineDesign_parse :: "string \<Rightarrow> error + json" where
  "refineDesign_parse response =
     (case responseMatch response of
        None \<Rightarrow> Inl (Error ''Failed to parse refined design'')
      | Some m \<Rightarrow> JSON_parse m)"

definition generateCode_parse :: "string \<Rightarrow> error + json" where
  "generateCode_parse responseText =
     (case responseMatch responseText of
        None \<Rightarrow> Inl (Error ''Failed to parse code from Claude response'')
      | Some m \<Rightarrow> JSON_parse m)"

definition addFeature_parse :: "string \<Rightarrow> error + json" where
  "addFeature_parse responseText =
     (case responseMatch responseText of
        None \<Rightarrow> Inl (Error ''Failed to parse feature addition response'')
      | Some m \<Rightarrow> JSON_parse m)"

section \<open>Paths and the file system\<close>

text \<open>
  \<^verbatim>\<open>path.join\<close> and \<^verbatim>\<open>path.dirname\<close> are Node's POSIX functions. A joined path is
  a normalised string; the model keeps it in structured form: whether it starts with a slash,
  its components after normalisation, and whether it ends with a slash. \<open>normalizeString\<close>
  is Node's function of that name on the segments between slashes: empty segments and
  \<^verbatim>\<open>.\<close> are dropped, \<^verbatim>\<open>..\<close> removes the component before it, and where there is none it
  is kept for a relative path and dropped for an absolute one.
\<close>

record npath =
  absolute :: bool
  comps :: "string list"
  trailing :: bool

fun split_slash :: "string \<Rightarrow> string list" where
  "split_slash [] = [[]]"
| "split_slash (c # cs) =
     (if c = CHR ''/'' then [] # split_slash cs
      else (case split_slash cs of [] \<Rightarrow> [[c]] | seg # segs \<Rightarrow> (c # seg) # segs))"

fun normalizeString :: "bool \<Rightarrow> string list \<Rightarrow> string list \<Rightarrow> string list" where
  "normalizeString allowAboveRoot res [] = res"
| "normalizeString allowAboveRoot res (seg # segs) =
     (if seg = [] \<or> seg = ''.'' then normalizeString allowAboveRoot res segs
      else if seg = ''..'' then
        (if res \<noteq> [] \<and> last res \<noteq> ''..'' then normalizeString allowAboveRoot (butlast res) segs
         else if allowAboveRoot then normalizeString allowAboveRoot (res @ [''..'']) segs
         else normalizeString allowAboveRoot res segs)
      else normalizeString allowAboveRoot (res @ [seg]) segs)"

definition normalize :: "string \<Rightarrow> npath" where
  "normalize p =
     (let isAbsolute = (p \<noteq> [] \<and> hd p = CHR ''/'')
      in \<lparr>absolute = isAbsolute,
          comps = normalizeString (\<not> isAbsolute) [] (split_slash p),
          trailing = (p \<noteq> [] \<and> last p = CHR ''/'')\<rparr>)"

definition path_join :: "string \<Rightarrow> string \<Rightarrow> npath" where
  "path_join a b = normalize (if a = [] then b else if b = [] then a else a @ ''/'' @ b)"

definition path_dirname :: "npath \<Rightarrow> npath" where
  "path_dirname p = \<lparr>absolute = absolute p, comps = butlast (comps p), trailing = False\<rparr>"

text \<open>
  The file system is a map from locations to nodes. The root, the working directory and the
  ancestors of the working directory (locations made of \<^verbatim>\<open>..\<close> only) are directories.
  A location is \<open>blocked\<close> when one of its proper ancestors is a regular file. The calls are
  Node's synchronous ones, with the error code each raises. The calls on an \<open>npath\<close> are
  the calls on a path that \<^verbatim>\<open>path.join\<close> or \<^verbatim>\<open>path.dirname\<close> of a joined path
  returned; a failed one changes nothing. The calls on a path string as the caller wrote it
  follow below. Links, permissions and devices are not modelled. File contents are strings of
  the characters of the model; the UTF-8 encoding that \<^verbatim>\<open>writeFileSync\<close> applies to a
  JavaScript string (in which a lone surrogate is replaced) is not modelled.
\<close>

datatype node = File string | Dir

type_synonym location = "bool \<times> string list"

type_synonym filesystem = "location \<Rightarrow> node option"

definition loc :: "npath \<Rightarrow> location" where
  "loc p = (absolute p, comps p)"

definition dots :: "string list \<Rightarrow> bool" where
  "dots q = list_all (\<lambda>c. c = ''..'') q"

definition node_at :: "filesystem \<Rightarrow> location \<Rightarrow> node option" where
  "node_at fs l = (if dots (snd l) then Some Dir else fs l)"

definition is_file :: "node option \<Rightarrow> bool" where
  "is_file n = (case n of Some (File c) \<Rightarrow> True | _ \<Rightarrow> False)"

definition blocked :: "filesystem \<Rightarrow> location \<Rightarrow> bool" where
  "blocked fs l =
     list_ex (\<lambda>q. q \<noteq> snd l \<and> is_file (node_at fs (fst l, q))) (prefixes (snd l))"

definition existsSync :: "filesystem \<Rightarrow> npath \<Rightarrow> bool" where
  "existsSync fs p =
     (\<not> blocked fs (loc p) \<and>
      (case node_at fs (loc p) of
         None \<Rightarrow> False
       | Some Dir \<Rightarrow> True
       | Some (File c) \<Rightarrow> \<not> trailing p))"

text \<open>\<^verbatim>\<open>fs.mkdirSync(p, { recursive: true })\<close>: every missing directory on the way is made.\<close>

definition mkdirSync :: "npath \<Rightarrow> filesystem \<Rightarrow> errno + filesystem" where
  "mkdirSync p fs =
     (if blocked fs (loc p) then Inl ENOTDIR
      else if is_file (node_at fs (loc p)) then Inl (if trailing p then ENOTDIR else EEXIST)
      else Inr (\<lambda>k. if fst k = absolute p \<and> prefix (snd k) (comps p) \<and> node_at fs k = None
                     then Some Dir else fs k))"

text \<open>\<^verbatim>\<open>fs.writeFileSync(p, data, 'utf-8')\<close>: the file is created or truncated.\<close>

definition writeFileSync :: "npath \<Rightarrow> string \<Rightarrow> filesystem \<Rightarrow> errno + filesystem" where
  "writeFileSync p data fs =
     (if blocked fs (loc p) then Inl ENOTDIR
      else if node_at fs (loc (path_dirname p)) = None then Inl ENOENT
      else if trailing p then Inl EISDIR
      else if node_at fs (loc p) = Some Dir then Inl EISDIR
      else Inr (fs(loc p \<mapsto> File data)))"

definition readFileSync :: "npath \<Rightarrow> filesystem \<Rightarrow> errno + string" where
  "readFileSync p fs =
     (if blocked fs (loc p) then Inl ENOTDIR
      else (case node_at fs (loc p) of
              None \<Rightarrow> Inl ENOENT
            | Some Dir \<Rightarrow> Inl EISDIR
            | Some (File c) \<Rightarrow> if trailing p then Inl ENOTDIR else Inr c))"

definition unlinkSync :: "npath \<Rightarrow> filesystem \<Rightarrow> errno + filesystem" where
  "unlinkSync p fs =
     (if blocked fs (loc p) then Inl ENOTDIR
      else (case node_at fs (loc p) of
              None \<Rightarrow> Inl ENOENT
            | Some Dir \<Rightarrow> Inl EISDIR
            | Some (File c) \<Rightarrow> if trailing p then Inl ENOTDIR else Inr (fs(loc p := None))))"

text \<open>
  A path string that the caller wrote is handed to the operating system as it is, which
  resolves it segment by segment: a name that anything but slashes follows has to be an
  existing directory, also where a later \<^verbatim>\<open>..\<close> leaves it again, and the empty string
  names nothing. \<open>up\<close> is the step of a \<^verbatim>\<open>..\<close> segment, as in \<open>normalizeString\<close>.
  \<open>walk\<close> follows the segments from the location \<open>cur\<close> and returns the error met, if
  any; where there is none the path names the location of \<open>normalize\<close>.
\<close>

definition up :: "bool \<Rightarrow> string list \<Rightarrow> string list" where
  "up a cur =
     (if cur \<noteq> [] \<and> last cur \<noteq> ''..'' then butlast cur
      else if a then cur
      else cur @ [''..''])"

fun walk :: "filesystem \<Rightarrow> bool \<Rightarrow> string list \<Rightarrow> string list \<Rightarrow> errno option" where
  "walk fs a cur [] = None"
| "walk fs a cur (seg # segs) =
     (if seg = [] \<or> seg = ''.'' then walk fs a cur segs
      else if seg = ''..'' then walk fs a (up a cur) segs
      else if list_all (\<lambda>t. t = []) segs then None
      else (case node_at fs (a, cur @ [seg]) of
              None \<Rightarrow> Some ENOENT
            | Some (File c) \<Rightarrow> Some ENOTDIR
            | Some Dir \<Rightarrow> walk fs a (cur @ [seg]) segs))"

definition resolve :: "filesystem \<Rightarrow> string \<Rightarrow> errno + npath" where
  "resolve fs p =
     (if p = [] then Inl ENOENT
      else (case walk fs (hd p = CHR ''/'') [] (split_slash p) of
              Some e \<Rightarrow> Inl e
            | None \<Rightarrow> Inr (normalize p)))"

definition existsSync_str :: "filesystem \<Rightarrow> string \<Rightarrow> bool" where
  "existsSync_str fs p = (case resolve fs p of Inl e \<Rightarrow> False | Inr q \<Rightarrow> existsSync fs q)"

definition readFileSync_str :: "string \<Rightarrow> filesystem \<Rightarrow> errno + string" where
  "readFileSync_str p fs = (case resolve fs p of Inl e \<Rightarrow> Inl e | Inr q \<Rightarrow> readFileSync q fs)"

definition writeFileSync_str :: "string \<Rightarrow> string \<Rightarrow> filesystem \<Rightarrow> errno + filesystem" where
  "writeFileSync_str p data fs =
     (case resolve fs p of Inl e \<Rightarrow> Inl e | Inr q \<Rightarrow> writeFileSync q data fs)"

text \<open>
  \<^verbatim>\<open>fs.mkdirSync(p, { recursive: true })\<close> on such a string makes every missing directory
  the segments pass through, those that a later \<^verbatim>\<open>..\<close> leaves included, and stops at a
  regular file: with \<^verbatim>\<open>EEXIST\<close> where the file is the last segment, with
  \<^verbatim>\<open>ENOTDIR\<close> where something follows it. The directories made before the error stay, so
  the call returns the file system it leaves together with the error.
\<close>

fun mkdirp :: "bool \<Rightarrow> string list \<Rightarrow> string list \<Rightarrow> filesystem \<Rightarrow> errno option \<times> filesystem" where
  "mkdirp a cur [] fs = (None, fs)"
| "mkdirp a cur (seg # segs) fs =
     (if seg = [] \<or> seg = ''.'' then mkdirp a cur segs fs
      else if seg = ''..'' then mkdirp a (up a cur) segs fs
      else (case node_at fs (a, cur @ [seg]) of
              None \<Rightarrow> mkdirp a (cur @ [seg]) segs (fs((a, cur @ [seg]) \<mapsto> Dir))
            | Some (File c) \<Rightarrow> (Some (if segs = [] then EEXIST else ENOTDIR), fs)
            | Some Dir \<Rightarrow> mkdirp a (cur @ [seg]) segs fs))"

definition mkdirSync_str :: "string \<Rightarrow> filesystem \<Rightarrow> errno option \<times> filesystem" where
  "mkdirSync_str p fs =
     (if p = [] then (Some ENOENT, fs)
      else mkdirp (hd p = CHR ''/'') [] (split_slash p) fs)"

section \<open>The output writer\<close>

record CodeFile =
  path :: string
  content :: string
  language :: string

record GeneratedCode =
  files :: "CodeFile list"
  instructions :: string

text \<open>
  A call that throws leaves the file system as the calls before it made it, so the writer
  returns the error, if any, together with the file system it leaves behind.
  \<open>ensureDir\<close> is the source's function of that name; \<^verbatim>\<open>saveOutput\<close> and
  \<^verbatim>\<open>saveJson\<close> repeat its body in line: \<open>ensureDir_str\<close> on the output directory as the
  caller wrote it, \<open>ensureDir\<close> on the directory of a joined path. \<open>saveOutput_file\<close> is
  the body of the loop over \<^verbatim>\<open>code.files\<close>, \<open>saveOutput_files\<close> the loop.
\<close>

definition ensureDir :: "npath \<Rightarrow> filesystem \<Rightarrow> errno + filesystem" where
  "ensureDir dirPath fs = (if \<not> existsSync fs dirPath then mkdirSync dirPath fs else Inr fs)"

definition ensureDir_str :: "string \<Rightarrow> filesystem \<Rightarrow> errno option \<times> filesystem" where
  "ensureDir_str dirPath fs =
     (if \<not> existsSync_str fs dirPath then mkdirSync_str dirPath fs else (None, fs))"

definition saveOutput_file :: "string \<Rightarrow> CodeFile \<Rightarrow> filesystem \<Rightarrow> errno option \<times> filesystem" where
  "saveOutput_file outputDir file fs =
     (let filePath = path_join outputDir (path file);
          fileDir = path_dirname filePath
      in case ensureDir fileDir fs of
           Inl e \<Rightarrow> (Some e, fs)
         | Inr fs1 \<Rightarrow>
             (case writeFileSync filePath (content file) fs1 of
                Inl e \<Rightarrow> (Some e, fs1)
              | Inr fs2 \<Rightarrow> (None, fs2)))"

fun saveOutput_files :: "string \<Rightarrow> CodeFile list \<Rightarrow> filesystem \<Rightarrow> errno option \<times> filesystem" where
  "saveOutput_files outputDir [] fs = (None, fs)"
| "saveOutput_files outputDir (file # rest) fs =
     (case saveOutput_file outputDir file fs of
        (Some e, fs1) \<Rightarrow> (Some e, fs1)
      | (None, fs1) \<Rightarrow> saveOutput_files outputDir rest fs1)"

definition setupText :: "string \<Rightarrow> string" where
  "setupText instr = ''# Setup Instructions\<newline>\<newline>'' @ instr"

definition saveOutput :: "GeneratedCode \<Rightarrow> string \<Rightarrow> filesystem \<Rightarrow> errno option \<times> filesystem" where
  "saveOutput code outputDir fs =
     (case ensureDir_str outputDir fs of
        (Some e, fs1) \<Rightarrow> (Some e, fs1)
      | (None, fs1) \<Rightarrow>
          (case saveOutput_files outputDir (files code) fs1 of
             (Some e, fs2) \<Rightarrow> (Some e, fs2)
           | (None, fs2) \<Rightarrow>
               if instructions code \<noteq> [] then
                 (let readmePath = path_join outputDir ''SETUP.md''
                  in case writeFileSync readmePath (setupText (instructions code)) fs2 of
                       Inl e \<Rightarrow> (Some e, fs2)
                     | Inr fs3 \<Rightarrow> (None, fs3))
               else (None, fs2)))"

text \<open>
  \<^verbatim>\<open>saveJson\<close> takes the directory of the path it is given, which need not be normalised:
  \<open>dirname\<close> is Node's function on such a string. \<^verbatim>\<open>JSON.stringify(data, null, 2)\<close> is a
  built-in; the writer takes the function as a parameter.
\<close>

definition dirname :: "string \<Rightarrow> string" where
  "dirname p =
     (if p = [] then ''.''
      else
        (let hasRoot = (hd p = CHR ''/'');
             r = dropWhile (\<lambda>c. c \<noteq> CHR ''/'') (dropWhile (\<lambda>c. c = CHR ''/'') (rev (tl p)))
         in if r = [] then (if hasRoot then ''/'' else ''.'')
            else if hasRoot \<and> tl r = [] then ''//''
            else hd p # rev (tl r)))"

definition saveJson :: "(json \<Rightarrow> string) \<Rightarrow> json \<Rightarrow> string \<Rightarrow> filesystem \<Rightarrow> errno option \<times> filesystem" where
  "saveJson stringify data filePath fs =
     (let dir = dirname filePath
      in case ensureDir_str dir fs of
           (Some e, fs1) \<Rightarrow> (Some e, fs1)
         | (None, fs1) \<Rightarrow>
             (case writeFileSync_str filePath (stringify data) fs1 of
                Inl e \<Rightarrow> (Some e, fs1)
              | Inr fs2 \<Rightarrow> (None, fs2)))"

definition readFile :: "string \<Rightarrow> filesystem \<Rightarrow> error + string" where
  "readFile filePath fs =
     (if \<not> existsSync_str fs filePath then Inl (Error (''File not found: '' @ filePath))
      else (case readFileSync_str filePath fs of
              Inl e \<Rightarrow> Inl (SystemError e)
            | Inr c \<Rightarrow> Inr c))"

section \<open>The environment of the services\<close>

text \<open>
  What the services ask of their environment is a parameter of the model: the environment
  variables, the outcome of each child process and remote call, the temporary directory and the
  clock, and the built-ins whose result the code only passes on
  (\<^verbatim>\<open>JSON.stringify(v, null, 2)\<close>, base64, the message of an error the engine raises). A value
  parsed from a response is used as a GeneratedCode without a check; \<open>asGeneratedCode\<close> reads
  the parsed object as that record, and is \<open>None\<close> when the object lacks the declared shape.
  The state of a run is the file system and the trace of what the run did to the outside.
\<close>

datatype child = Closed "nat option" "string list" | Errored error | TimedOut

datatype part = TextPart string | InlineData string string

record response =
  ok :: bool
  body_text :: string
  candidate_text :: "error + string"

record world =
  env :: "string \<Rightarrow> string option"
  execAsync :: "string \<Rightarrow> error + string \<times> string"
  spawn :: "string \<Rightarrow> string list \<Rightarrow> child"
  generateContent :: "part list \<Rightarrow> error + string"
  messages_create :: "string \<Rightarrow> error + string option"
  fetch :: "string \<Rightarrow> string \<Rightarrow> part list \<Rightarrow> error + response"
  tmpdir :: string
  now :: nat
  base64 :: "string \<Rightarrow> string"
  stringify :: "json \<Rightarrow> string"
  asGeneratedCode :: "json \<Rightarrow> GeneratedCode option"
  engineMessage :: "error \<Rightarrow> string"

datatype event =
    Exec string
  | Spawn string "string list"
  | GeminiSdk "part list"
  | GeminiFetch string
  | AnthropicSdk string
  | Fail string
  | Caught error

record sys =
  disk :: filesystem
  trace :: "event list"

definition emit :: "event \<Rightarrow> sys \<Rightarrow> sys" where
  "emit e s = s\<lparr>trace := trace s @ [e]\<rparr>"

text \<open>A string is truthy when it is defined and not empty.\<close>

definition truthy :: "string option \<Rightarrow> bool" where
  "truthy v = (case v of None \<Rightarrow> False | Some t \<Rightarrow> t \<noteq> [])"

definition errorMessage :: "world \<Rightarrow> error \<Rightarrow> string" where
  "errorMessage w e = (case e of Error m \<Rightarrow> m | _ \<Rightarrow> engineMessage w e)"

fun show_nat :: "nat \<Rightarrow> string" where
  "show_nat n =
     (if n < 10 then [char_of (48 + n)] else show_nat (n div 10) @ [char_of (48 + n mod 10)])"

definition is_space :: "char \<Rightarrow> bool" where
  "is_space c = ((of_char c :: nat) \<in> {9, 10, 11, 12, 13, 32, 160})"

definition trim :: "string \<Rightarrow> string" where
  "trim t = rev (dropWhile is_space (rev (dropWhile is_space t)))"

definition endsWith :: "string \<Rightarrow> string \<Rightarrow> bool" where
  "endsWith t suf = (length suf \<le> length t \<and> drop (length t - length suf) t = suf)"

text \<open>The string a joined path stands for, as \<^verbatim>\<open>path.normalize\<close> returns it.\<close>

fun join_slash :: "string list \<Rightarrow> string" where
  "join_slash [] = []"
| "join_slash [c] = c"
| "join_slash (c # d # cs) = c @ ''/'' @ join_slash (d # cs)"

definition path_string :: "npath \<Rightarrow> string" where
  "path_string p =
     (if comps p = [] then (if absolute p then ''/'' else if trailing p then ''./'' else ''.'')
      else (if absolute p then ''/'' else []) @ join_slash (comps p) @
           (if trailing p then ''/'' else []))"

section \<open>The design service\<close>

record GeminiService =
  model :: "string option"
  useOAuth :: bool

definition new_GeminiService :: "world \<Rightarrow> GeminiService" where
  "new_GeminiService w =
     (let apiKey = env w ''GEMINI_API_KEY''
      in if truthy apiKey then \<lparr>model = apiKey, useOAuth = False\<rparr>
         else \<lparr>model = None, useOAuth = True\<rparr>)"

definition oauthNotConfigured :: string where
  "oauthNotConfigured =
     ''Google OAuth not configured. Run: gcloud auth application-default login\<newline>'' @
     ''Or set GEMINI_API_KEY environment variable.''"

definition getAccessToken :: "world \<Rightarrow> sys \<Rightarrow> (error + string) \<times> sys" where
  "getAccessToken w s =
     (let cmd = ''gcloud auth application-default print-access-token'';
          s1 = emit (Exec cmd) s
      in case execAsync w cmd of
           Inl e \<Rightarrow> (Inl (Error oauthNotConfigured), s1)
         | Inr (stdout, stderr) \<Rightarrow> (Inr (trim stdout), s1))"

definition getProjectId :: "world \<Rightarrow> sys \<Rightarrow> (error + string) \<times> sys" where
  "getProjectId w s =
     (let cmd = ''gcloud config get-value project'';
          s1 = emit (Exec cmd) s
      in case execAsync w cmd of
           Inl e \<Rightarrow>
             (Inl (Error ''Could not determine Google Cloud project. Set GOOGLE_CLOUD_PROJECT env var.''), s1)
         | Inr (stdout, stderr) \<Rightarrow> (Inr (trim stdout), s1))"

text \<open>\<^verbatim>\<open>process.env.GOOGLE_CLOUD_PROJECT || await this.getProjectId()\<close>\<close>

definition projectIdOf :: "world \<Rightarrow> sys \<Rightarrow> (error + string) \<times> sys" where
  "projectIdOf w s =
     (case env w ''GOOGLE_CLOUD_PROJECT'' of
        None \<Rightarrow> getProjectId w s
      | Some v \<Rightarrow> if v \<noteq> [] then (Inr v, s) else getProjectId w s)"

definition endpoint :: "string \<Rightarrow> string" where
  "endpoint projectId =
     ''https://us-central1-aiplatform.googleapis.com/v1/projects/'' @ projectId @
     ''/locations/us-central1/publishers/google/models/gemini-2.0-flash:generateContent''"

definition callGeminiAPI :: "world \<Rightarrow> GeminiService \<Rightarrow> string \<Rightarrow> sys \<Rightarrow> (error + string) \<times> sys" where
  "callGeminiAPI w g prompt s =
     (if \<not> useOAuth g \<and> model g \<noteq> None then
        (generateContent w [TextPart prompt], emit (GeminiSdk [TextPart prompt]) s)
      else
        (case getAccessToken w s of
           (Inl e, s1) \<Rightarrow> (Inl e, s1)
         | (Inr accessToken, s1) \<Rightarrow>
             (case projectIdOf w s1 of
                (Inl e, s2) \<Rightarrow> (Inl e, s2)
              | (Inr projectId, s2) \<Rightarrow>
                  (let s3 = emit (GeminiFetch (endpoint projectId)) s2
                   in case fetch w (endpoint projectId) accessToken [TextPart prompt] of
                        Inl e \<Rightarrow> (Inl e, s3)
                      | Inr r \<Rightarrow>
                          if \<not> ok r then (Inl (Error (''Gemini API error: '' @ body_text r)), s3)
                          else (candidate_text r, s3)))))"

definition generateDesign_systemPrompt :: "string \<Rightarrow> string" where
  "generateDesign_systemPrompt prompt =
     ''You are an expert UI/UX designer. Generate a detailed design specification in JSON format.\<newline>'' @
     ''\<newline>'' @
     ''The design spec should include:\<newline>'' @
     ''1. name: Project name\<newline>'' @
     ''2. description: Brief description\<newline>'' @
     ''3. layout: Overall layout structure with sections\<newline>'' @
     ''4. colorScheme: Color palette (primary, secondary, accent, background, text)\<newline>'' @
     ''5. typography: Font choices\<newline>'' @
     ''6. components: List of UI components with their properties\<newline>'' @
     ''\<newline>'' @
     ''Respond ONLY with valid JSON, no markdown or explanation.\<newline>'' @
     ''\<newline>'' @
     ''Create a design specification for: '' @ prompt"

definition generateDesign :: "world \<Rightarrow> GeminiService \<Rightarrow> string \<Rightarrow> sys \<Rightarrow> (error + json) \<times> sys" where
  "generateDesign w g prompt s =
     (case callGeminiAPI w g (generateDesign_systemPrompt prompt) s of
        (Inl e, s1) \<Rightarrow> (Inl e, s1)
      | (Inr response, s1) \<Rightarrow> (generateDesign_parse response, s1))"

definition analyzeImage_systemPrompt :: string where
  "analyzeImage_systemPrompt =
     ''Analyze this UI design image and extract a detailed design specification in JSON format.\<newline>'' @
     ''\<newline>'' @
     ''Include:\<newline>'' @
     ''1. name: Suggested project name\<newline>'' @
     ''2. description: What this UI appears to be\<newline>'' @
     ''3. layout: Structure and sections identified\<newline>'' @
     ''4. colorScheme: Colors used (provide hex values)\<newline>'' @
     ''5. typography: Font styles observed\<newline>'' @
     ''6. components: All UI components identified with their properties\<newline>'' @
     ''\<newline>'' @
     ''Respond ONLY with valid JSON.''"

definition analyzeImage_oauthPrompt :: string where
  "analyzeImage_oauthPrompt =
     ''Analyze this UI design image and extract a detailed design specification in JSON format. '' @
     ''Include name, description, layout, colorScheme, typography, components. '' @
     ''Respond ONLY with valid JSON.''"

definition analyzeImage :: "world \<Rightarrow> GeminiService \<Rightarrow> string \<Rightarrow> sys \<Rightarrow> (error + json) \<times> sys" where
  "analyzeImage w g imagePath s =
     (case readFileSync_str imagePath (disk s) of
        Inl e \<Rightarrow> (Inl (SystemError e), s)
      | Inr imageData \<Rightarrow>
          (let base64Image = base64 w imageData;
               mimeType = (if endsWith imagePath ''.png'' then ''image/png'' else ''image/jpeg'')
           in if \<not> useOAuth g \<and> model g \<noteq> None then
                (let parts = [TextPart analyzeImage_systemPrompt, InlineData mimeType base64Image];
                     s1 = emit (GeminiSdk parts) s
                 in case generateContent w parts of
                      Inl e \<Rightarrow> (Inl e, s1)
                    | Inr response \<Rightarrow> (analyzeImage_parse response, s1))
              else
                (case getAccessToken w s of
                   (Inl e, s1) \<Rightarrow> (Inl e, s1)
                 | (Inr accessToken, s1) \<Rightarrow>
                     (case projectIdOf w s1 of
                        (Inl e, s2) \<Rightarrow> (Inl e, s2)
                      | (Inr projectId, s2) \<Rightarrow>
                          (let parts = [TextPart analyzeImage_oauthPrompt,
                                        InlineData mimeType base64Image];
                               s3 = emit (GeminiFetch (endpoint projectId)) s2
                           in case fetch w (endpoint projectId) accessToken parts of
                                Inl e \<Rightarrow> (Inl e, s3)
                              | Inr r \<Rightarrow>
                                  (case candidate_text r of
                                     Inl e \<Rightarrow> (Inl e, s3)
                                   | Inr t \<Rightarrow> (analyzeImage_parse t, s3)))))))"

definition refineDesign_prompt :: "world \<Rightarrow> json \<Rightarrow> string \<Rightarrow> string" where
  "refineDesign_prompt w design feedback =
     ''Current design specification:\<newline>'' @ stringify w design @
     ''\<newline>'' @
     ''\<newline>'' @
     ''User feedback: '' @ feedback @
     ''\<newline>'' @
     ''\<newline>'' @
     ''Update the design specification based on the feedback. Respond ONLY with the updated JSON.''"

definition refineDesign :: "world \<Rightarrow> GeminiService \<Rightarrow> json \<Rightarrow> string \<Rightarrow> sys \<Rightarrow> (error + json) \<times> sys" where
  "refineDesign w g design feedback s =
     (case callGeminiAPI w g (refineDesign_prompt w design feedback) s of
        (Inl e, s1) \<Rightarrow> (Inl e, s1)
      | (Inr response, s1) \<Rightarrow> (refineDesign_parse response, s1))"

section \<open>The code service\<close>



text \<open>
  \<^verbatim>\<open>runClaudeCodeInteractive\<close>: the promise is settled by the first of the child's
  \<^verbatim>\<open>close\<close> event (with the exit code, \<^verbatim>\<open>null\<close> after a signal, and the chunks read from
  standard output so far), its \<^verbatim>\<open>error\<close> event, and the five-minute timer.
\<close>

definition show_code :: "nat option \<Rightarrow> string" where
  "show_code code = (case code of None \<Rightarrow> ''null'' | Some n \<Rightarrow> show_nat n)"

definition runClaudeCodeInteractive :: "world \<Rightarrow> string \<Rightarrow> sys \<Rightarrow> (error + string) \<times> sys" where
  "runClaudeCodeInteractive w prompt s =
     (let s1 = emit (Spawn ''claude'' [''-p'', prompt]) s
      in case spawn w ''claude'' [''-p'', prompt] of
           Closed code chunks \<Rightarrow>
             if code = Some 0 \<or> chunks \<noteq> [] then (Inr (concat chunks), s1)
             else (Inl (Error (''Claude Code exited with code '' @ show_code code)), s1)
         | Errored err \<Rightarrow> (Inl err, s1)
         | TimedOut \<Rightarrow> (Inl (Error ''Claude Code timeout''), s1))"

definition cliNotAvailable :: "string \<Rightarrow> string" where
  "cliNotAvailable original =
     ''Claude Code CLI not available or not logged in.\<newline>'' @
     ''Run: claude login\<newline>'' @
     ''Or set ANTHROPIC_API_KEY environment variable.\<newline>'' @
     ''Original error: '' @ original"

text \<open>
  \<open>callClaudeCode_catch\<close> is the outer \<^verbatim>\<open>catch (error)\<close> block of
  \<^verbatim>\<open>callClaudeCode\<close>, with its inner \<^verbatim>\<open>try\<close> and \<^verbatim>\<open>catch (e)\<close>: a throw of the
  inner \<^verbatim>\<open>try\<close>, the \<^verbatim>\<open>unlinkSync\<close> after the second strategy included, lands in the inner
  \<^verbatim>\<open>catch\<close>, whose own \<^verbatim>\<open>unlinkSync\<close> runs before the descriptive error is built.
\<close>

definition callClaudeCode_inner_catch :: "world \<Rightarrow> npath \<Rightarrow> error \<Rightarrow> sys \<Rightarrow> (error + string) \<times> sys" where
  "callClaudeCode_inner_catch w promptFile error s =
     (case unlinkSync promptFile (disk s) of
        Inl c \<Rightarrow> (Inl (SystemError c), s)
      | Inr d \<Rightarrow> (Inl (Error (cliNotAvailable (errorMessage w error))), s\<lparr>disk := d\<rparr>))"

definition callClaudeCode_catch :: "world \<Rightarrow> string \<Rightarrow> npath \<Rightarrow> error \<Rightarrow> sys \<Rightarrow> (error + string) \<times> sys" where
  "callClaudeCode_catch w prompt promptFile error s =
     (case runClaudeCodeInteractive w prompt s of
        (Inl e, s1) \<Rightarrow> callClaudeCode_inner_catch w promptFile error s1
      | (Inr result, s1) \<Rightarrow>
          (case unlinkSync promptFile (disk s1) of
             Inl c \<Rightarrow> callClaudeCode_inner_catch w promptFile error s1
           | Inr d \<Rightarrow> (Inr result, s1\<lparr>disk := d\<rparr>)))"

definition promptFile_of :: "world \<Rightarrow> npath" where
  "promptFile_of w = path_join (tmpdir w) (''d2c-prompt-'' @ show_nat (now w) @ ''.txt'')"

definition claudePrintCommand :: "string \<Rightarrow> npath \<Rightarrow> string" where
  "claudePrintCommand prompt promptFile =
     ''claude --print '' @ [CHR 0x22] @ take 500 prompt @ ''...'' @ [CHR 0x22] @
     '' < '' @ [CHR 0x22] @ path_string promptFile @ [CHR 0x22]"

definition callClaudeCode :: "world \<Rightarrow> string \<Rightarrow> sys \<Rightarrow> (error + string) \<times> sys" where
  "callClaudeCode w prompt s =
     (let promptFile = promptFile_of w
      in case writeFileSync promptFile prompt (disk s) of
           Inl c \<Rightarrow> (Inl (SystemError c), s)
         | Inr d0 \<Rightarrow>
             (let cmd = claudePrintCommand prompt promptFile;
                  s1 = emit (Exec cmd) (s\<lparr>disk := d0\<rparr>)
              in case execAsync w cmd of
                   Inl error \<Rightarrow> callClaudeCode_catch w prompt promptFile error s1
                 | Inr (stdout, stderr) \<Rightarrow>
                     (case unlinkSync promptFile (disk s1) of
                        Inl c \<Rightarrow> callClaudeCode_catch w prompt promptFile (SystemError c) s1
                      | Inr d1 \<Rightarrow>
                          if stderr \<noteq> [] \<and> stdout = []
                          then callClaudeCode_catch w prompt promptFile (Error stderr) (s1\<lparr>disk := d1\<rparr>)
                          else (Inr stdout, s1\<lparr>disk := d1\<rparr>))))"


text \<open>
  \<^verbatim>\<open>getFrameworkInstructions\<close> reads \<^verbatim>\<open>instructions[framework]\<close> on an object literal.
  A property read on an object literal finds the object's own properties and then those of
  \<^verbatim>\<open>Object.prototype\<close>: its functions, and the accessor \<^verbatim>\<open>__proto__\<close>, which yields the
  prototype itself. What the read yields is therefore a string, a built-in function, the
  prototype object, or \<^verbatim>\<open>undefined\<close> (\<open>None\<close>). Every value but the empty string and
  \<^verbatim>\<open>undefined\<close> is truthy. \<open>toString\<close> is what a template literal makes of the value.
\<close>

datatype jsvalue = JsString string | JsNative string | JsObjectPrototype

definition instructionsTable :: "(string \<times> string) list" where
  \<open>instructionsTable =
     [(''nextjs'',
       ''\<newline>'' @
       ''- Use Next.js App Router (app directory)\<newline>'' @
       ''- Create page.tsx for pages\<newline>'' @
       ''- Use 'use client' directive where needed\<newline>'' @
       ''- Implement proper metadata exports''),
      (''react'',
       ''\<newline>'' @
       ''- Use functional components with hooks\<newline>'' @
       ''- Create a proper component structure\<newline>'' @
       ''- Use React.FC for component typing''),
      (''vue'',
       ''\<newline>'' @
       ''- Use Vue 3 Composition API\<newline>'' @
       ''- Use <script setup lang="ts">\<newline>'' @
       ''- Create .vue single file components'')]\<close>

definition objectPrototype :: "string \<Rightarrow> jsvalue option" where
  "objectPrototype name =
     (if name = ''constructor'' then Some (JsNative ''Object'')
      else if name = ''__proto__'' then Some JsObjectPrototype
      else if name \<in> set [''__defineGetter__'', ''__defineSetter__'', ''hasOwnProperty'',
                            ''__lookupGetter__'', ''__lookupSetter__'', ''isPrototypeOf'',
                            ''propertyIsEnumerable'', ''toString'', ''valueOf'', ''toLocaleString'']
      then Some (JsNative name)
      else None)"

definition getProperty :: "(string \<times> string) list \<Rightarrow> string \<Rightarrow> jsvalue option" where
  "getProperty obj name =
     (case map_of obj name of Some t \<Rightarrow> Some (JsString t) | None \<Rightarrow> objectPrototype name)"

definition isTruthy :: "jsvalue option \<Rightarrow> bool" where
  "isTruthy v = (case v of None \<Rightarrow> False | Some (JsString t) \<Rightarrow> t \<noteq> [] | Some _ \<Rightarrow> True)"

definition getFrameworkInstructions :: "string \<Rightarrow> jsvalue option" where
  "getFrameworkInstructions framework =
     (if isTruthy (getProperty instructionsTable framework)
      then getProperty instructionsTable framework
      else getProperty instructionsTable ''react'')"

definition toString :: "jsvalue option \<Rightarrow> string" where
  "toString v =
     (case v of
        None \<Rightarrow> ''undefined''
      | Some (JsString t) \<Rightarrow> t
      | Some (JsNative name) \<Rightarrow> ''function '' @ name @ ''() { [native code] }''
      | Some JsObjectPrototype \<Rightarrow> ''[object Object]'')"







section \<open>The commands\<close>

text \<open>
  Each command runs its action inside \<^verbatim>\<open>try\<close>; the \<^verbatim>\<open>catch\<close> prints the message of
  the error and calls \<^verbatim>\<open>process.exit(1)\<close>. A command returns the exit status and the state
  it leaves. Of what a command prints, the trace keeps the failures: \<open>Fail m\<close> for a message
  about the arguments, \<open>Caught e\<close> for the line \<^verbatim>\<open>Error: \<close> followed by the message of
  \<open>e\<close>. The interactive \<^verbatim>\<open>generate\<close> command, which asks its arguments at the terminal
  and then runs the same calls in the same \<^verbatim>\<open>try\<close>, is not modelled.
\<close>

record DesignOptions =
  d_output :: string
  d_design :: "string option"



definition saveJson_step :: "world \<Rightarrow> json \<Rightarrow> string \<Rightarrow> sys \<Rightarrow> nat \<times> sys" where
  "saveJson_step w result file s =
     (case saveJson (stringify w) result file (disk s) of
        (Some c, d) \<Rightarrow> (1, emit (Caught (SystemError c)) (s\<lparr>disk := d\<rparr>))
      | (None, d) \<Rightarrow> (0, s\<lparr>disk := d\<rparr>))"


definition designCommand :: "world \<Rightarrow> string \<Rightarrow> string option \<Rightarrow> DesignOptions \<Rightarrow> sys \<Rightarrow> nat \<times> sys" where
  "designCommand w action input options s =
     (let gemini = new_GeminiService w
      in if action = ''generate'' then
           (case input of
              None \<Rightarrow> (1, emit (Fail ''Prompt is required for generate action'') s)
            | Some i \<Rightarrow>
                if i = [] then (1, emit (Fail ''Prompt is required for generate action'') s)
                else
                  (case generateDesign w gemini i s of
                     (Inl e, s1) \<Rightarrow> (1, emit (Caught e) s1)
                   | (Inr result, s1) \<Rightarrow> saveJson_step w result (d_output options) s1))
         else if action = ''analyze'' then
           (case input of
              None \<Rightarrow> (1, emit (Fail ''Image path is required for analyze action'') s)
            | Some i \<Rightarrow>
                if i = [] then (1, emit (Fail ''Image path is required for analyze action'') s)
                else
                  (case analyzeImage w gemini i s of
                     (Inl e, s1) \<Rightarrow> (1, emit (Caught e) s1)
                   | (Inr result, s1) \<Rightarrow> saveJson_step w result (d_output options) s1))
         else if action = ''refine'' then
           (if \<not> truthy input \<or> \<not> truthy (d_design options) then
              (1, emit (Fail ''Feedback and --design file are required for refine action'') s)
            else
              (case (input, d_design options) of
                 (Some i, Some designFile) \<Rightarrow>
                   (case readFileSync_str designFile (disk s) of
                      Inl c \<Rightarrow> (1, emit (Caught (SystemError c)) s)
                    | Inr t \<Rightarrow>
                        (case JSON_parse t of
                           Inl e \<Rightarrow> (1, emit (Caught e) s)
                         | Inr existingDesign \<Rightarrow>
                             (case refineDesign w gemini existingDesign i s of
                                (Inl e, s1) \<Rightarrow> (1, emit (Caught e) s1)
                              | (Inr result, s1) \<Rightarrow> saveJson_step w result (d_output options) s1)))
               | _ \<Rightarrow> (1, emit (Fail ''Feedback and --design file are required for refine action'') s)))
         else
           (1, emit (Fail (''Unknown action: '' @ action @ ''. Use: generate, analyze, refine'')) s))"



section \<open>Notions used to state and prove the properties\<close>

text \<open>
  A file system is well formed when the parent of every entry is a directory. \<open>ext\<close> says
  that directories stay directories and files stay files; \<open>frame W\<close> that outside \<open>W\<close>
  an entry is unchanged or is a directory that was made. The writer is a sequence of steps, each
  an optional \<open>ensureDir\<close> of the parent followed by a write: the listed files, then the setup
  document. \<open>written\<close> collects the locations of the steps that succeeded.
\<close>

definition wf_fs :: "filesystem \<Rightarrow> bool" where
  "wf_fs fs = (\<forall>a q. fs (a, q) \<noteq> None \<longrightarrow> node_at fs (a, butlast q) = Some Dir)"

definition mk :: "npath \<Rightarrow> filesystem \<Rightarrow> filesystem" where
  "mk p fs = (\<lambda>k. if fst k = absolute p \<and> prefix (snd k) (comps p) \<and> node_at fs k = None
                   then Some Dir else fs k)"

definition ext :: "filesystem \<Rightarrow> filesystem \<Rightarrow> bool" where
  "ext fs fs' = (\<forall>k. (node_at fs k = Some Dir \<longrightarrow> node_at fs' k = Some Dir) \<and>
                     (is_file (node_at fs k) \<longrightarrow> is_file (node_at fs' k)))"

definition frame :: "location set \<Rightarrow> filesystem \<Rightarrow> filesystem \<Rightarrow> bool" where
  "frame W fs fs' = (\<forall>k. k \<notin> W \<longrightarrow> fs' k = fs k \<or> (fs k = None \<and> fs' k = Some Dir))"

type_synonym wstep = "bool \<times> npath \<times> string"

definition run_step :: "wstep \<Rightarrow> filesystem \<Rightarrow> errno option \<times> filesystem" where
  "run_step st fs =
     (case (if fst st then ensureDir (path_dirname (fst (snd st))) fs else Inr fs) of
        Inl e \<Rightarrow> (Some e, fs)
      | Inr fs1 \<Rightarrow>
          (case writeFileSync (fst (snd st)) (snd (snd st)) fs1 of
             Inl e \<Rightarrow> (Some e, fs1)
           | Inr fs2 \<Rightarrow> (None, fs2)))"

fun run_steps :: "wstep list \<Rightarrow> filesystem \<Rightarrow> errno option \<times> filesystem" where
  "run_steps [] fs = (None, fs)"
| "run_steps (st # rest) fs =
     (case run_step st fs of
        (Some e, fs1) \<Rightarrow> (Some e, fs1)
      | (None, fs1) \<Rightarrow> run_steps rest fs1)"

fun written :: "wstep list \<Rightarrow> filesystem \<Rightarrow> location set" where
  "written [] fs = {}"
| "written (st # rest) fs =
     (case run_step st fs of
        (Some e, fs1) \<Rightarrow> {}
      | (None, fs1) \<Rightarrow> insert (loc (fst (snd st))) (written rest fs1))"

definition targets :: "wstep list \<Rightarrow> location set" where
  "targets sts = (\<lambda>st. loc (fst (snd st))) ` set sts"



definition file_step :: "string \<Rightarrow> CodeFile \<Rightarrow> wstep" where
  "file_step outputDir file = (True, path_join outputDir (path file), content file)"

definition setup_steps :: "GeneratedCode \<Rightarrow> string \<Rightarrow> wstep list" where
  "setup_steps code outputDir =
     (if instructions code \<noteq> []
      then [(False, path_join outputDir ''SETUP.md'', setupText (instructions code))] else [])"

definition steps_of :: "GeneratedCode \<Rightarrow> string \<Rightarrow> wstep list" where
  "steps_of code outputDir = map (file_step outputDir) (files code) @ setup_steps code outputDir"


definition dots_first :: "string list \<Rightarrow> bool" where
  "dots_first cur = (\<forall>q. prefix q cur \<and> q \<noteq> [] \<and> last q = ''..'' \<longrightarrow> dots q)"

text \<open>
  A service has no credential when its API key variable is unset or empty and its login tooling
  is unavailable: for the design service the \<^verbatim>\<open>gcloud\<close> token command fails; for the code
  service both invocations of the \<^verbatim>\<open>claude\<close> command-line agent fail, whatever the prompt.
  The calls to the remote model endpoints are the events \<open>GeminiSdk\<close>, \<open>GeminiFetch\<close> and
  \<open>AnthropicSdk\<close> of the trace.
\<close>

definition gcloudTokenCommand :: string where
  "gcloudTokenCommand = ''gcloud auth application-default print-access-token''"

definition gemini_unconfigured :: "world \<Rightarrow> bool" where
  "gemini_unconfigured w =
     (\<not> truthy (env w ''GEMINI_API_KEY'') \<and> isl (execAsync w gcloudTokenCommand))"



definition is_gemini_call :: "event \<Rightarrow> bool" where
  "is_gemini_call e = (case e of GeminiSdk parts \<Rightarrow> True | GeminiFetch url \<Rightarrow> True | _ \<Rightarrow> False)"

definition is_anthropic_call :: "event \<Rightarrow> bool" where
  "is_anthropic_call e = (case e of AnthropicSdk prompt \<Rightarrow> True | _ \<Rightarrow> False)"

definition gemini_calls :: "sys \<Rightarrow> event list" where
  "gemini_calls s = filter is_gemini_call (trace s)"

definition anthropic_calls :: "sys \<Rightarrow> event list" where
  "anthropic_calls s = filter is_anthropic_call (trace s)"

text \<open>A response text has no span when no \<^verbatim>\<open>{\<close> in it is followed by a \<^verbatim>\<open>}\<close>.\<close>

definition no_span :: "string \<Rightarrow> bool" where
  "no_span response =
     (\<not> (\<exists>i j. i < j \<and> j < length response \<and> response ! i = CHR ''{'' \<and> response ! j = CHR ''}''))"

section \<open>Concrete inputs\<close>

text \<open>The inputs at which the theorems below are instantiated and the code is evaluated.\<close>

definition card_code :: GeneratedCode where
  "card_code =
     \<lparr>files = [\<lparr>path = ''components/ui/Card.tsx'', content = ''export {}'', language = ''typescript''\<rparr>,
               \<lparr>path = ''page.tsx'', content = ''x'', language = ''typescript''\<rparr>],
      instructions = ''npm install''\<rparr>"





definition escape_code :: GeneratedCode where
  "escape_code =
     \<lparr>files = [\<lparr>path = ''../z'', content = ''c'', language = ''text''\<rparr>],
      instructions = []\<rparr>"


definition file_fs :: filesystem where
  "file_fs = [(False, [''f'']) \<mapsto> File ''data'']"

definition landing_json :: string where
  \<open>landing_json = ''{"name":"Landing","description":"d","layout":{"type":"single","sections":[]},"colorScheme":{"primary":"#000","secondary":"#111","accent":"#222","background":"#fff","text":"#000"},"typography":{"headingFont":"Inter","bodyFont":"Inter"},"components":[]}''\<close>

definition landing_tree :: json where
  "landing_tree =
     JObject
       [(''name'', JString ''Landing''), (''description'', JString ''d''),
        (''layout'', JObject [(''type'', JString ''single''), (''sections'', JArray [])]),
        (''colorScheme'',
         JObject [(''primary'', JString ''#000''), (''secondary'', JString ''#111''),
                  (''accent'', JString ''#222''), (''background'', JString ''#fff''),
                  (''text'', JString ''#000'')]),
        (''typography'', JObject [(''headingFont'', JString ''Inter''), (''bodyFont'', JString ''Inter'')]),
        (''components'', JArray [])]"

definition fenced_pre :: string where
  "fenced_pre = ''Here is the design:\<newline>```json\<newline>''"

definition fenced_post :: string where
  "fenced_post = ''\<newline>```\<newline>Enjoy.''"

definition refusal :: string where
  "refusal = ''Sorry, I cannot help with that.''"

definition offline_world :: world where
  "offline_world =
     \<lparr>env = (\<lambda>name. None),
      execAsync = (\<lambda>cmd. Inl (Error ''command not found'')),
      spawn = (\<lambda>cmd args. Closed (Some 127) []),
      generateContent = (\<lambda>parts. Inl (Error ''unreachable'')),
      messages_create = (\<lambda>prompt. Inl (Error ''unreachable'')),
      fetch = (\<lambda>url token parts. Inl (Error ''unreachable'')),
      tmpdir = ''/tmp'',
      now = 7,
      base64 = (\<lambda>t. t),
      stringify = (\<lambda>v. ''{}''),
      asGeneratedCode = (\<lambda>v. None),
      engineMessage = (\<lambda>e. ''engine error'')\<rparr>"

definition stderr_world_fail :: world where
  "stderr_world_fail = offline_world\<lparr>execAsync := (\<lambda>cmd. Inr ([], ''warning: no output''))\<rparr>"

definition stderr_world_ok :: world where
  "stderr_world_ok =
     offline_world\<lparr>execAsync := (\<lambda>cmd. Inr ([], ''warning: no output'')),
                   spawn := (\<lambda>cmd args. Closed (Some 0) [''ok''])\<rparr>"

definition tmp_sys :: sys where
  "tmp_sys = \<lparr>disk = [(True, [''tmp'']) \<mapsto> Dir], trace = []\<rparr>"





section \<open>The brace match is greedy\<close>

lemma star_close:
  "match_here [AnyStar, Lit c] s =
     (if c \<in> set s then Some (rev (dropWhile (\<lambda>x. x \<noteq> c) (rev s))) else None)"
  by (induction s) (auto simp: dropWhile_append)

lemma match_here_jsonPattern:
  "match_here jsonPattern s =
     (case s of [] \<Rightarrow> None
      | x # xs \<Rightarrow> if x = CHR ''{'' \<and> CHR ''}'' \<in> set xs
                 then Some (x # rev (dropWhile (\<lambda>c. c \<noteq> CHR ''}'') (rev xs))) else None)"
  by (cases s) (simp_all add: jsonPattern_def star_close)

lemma search_no_close:
  "CHR ''}'' \<notin> set s \<Longrightarrow> search jsonPattern s = None"
  by (induction s) (simp_all add: match_here_jsonPattern)

lemma responseMatch_span:
  assumes "CHR ''{'' \<notin> set pre" and "CHR ''}'' \<notin> set post"
  shows "responseMatch (pre @ CHR ''{'' # mid @ CHR ''}'' # post) = Some (CHR ''{'' # mid @ ''}'')"
  using assms unfolding responseMatch_def
proof (induction pre)
  case Nil
  have "dropWhile (\<lambda>c. c \<noteq> CHR ''}'') (rev post) = []"
    using Nil by (auto simp: dropWhile_eq_Nil_conv)
  then show ?case by (simp add: match_here_jsonPattern dropWhile_append)
next
  case (Cons a pre)
  then show ?case by (auto simp: match_here_jsonPattern)
qed

lemma responseMatch_None:
  assumes "\<not> (\<exists>i j. i < j \<and> j < length resp \<and> resp ! i = CHR ''{'' \<and> resp ! j = CHR ''}'')"
  shows "responseMatch resp = None"
  using assms unfolding responseMatch_def
proof (induction resp)
  case Nil
  then show ?case by (simp add: match_here_jsonPattern)
next
  case (Cons a resp)
  have tl: "\<not> (\<exists>i j. i < j \<and> j < length resp \<and> resp ! i = CHR ''{'' \<and> resp ! j = CHR ''}'')"
  proof
    assume "\<exists>i j. i < j \<and> j < length resp \<and> resp ! i = CHR ''{'' \<and> resp ! j = CHR ''}''"
    then obtain i j where "i < j" "j < length resp" "resp ! i = CHR ''{''" "resp ! j = CHR ''}''" by blast
    then have "Suc i < Suc j \<and> Suc j < length (a # resp) \<and> (a # resp) ! Suc i = CHR ''{'' \<and> (a # resp) ! Suc j = CHR ''}''"
      by simp
    with Cons.prems show False by blast
  qed
  have hd: "\<not> (a = CHR ''{'' \<and> CHR ''}'' \<in> set resp)"
  proof
    assume h: "a = CHR ''{'' \<and> CHR ''}'' \<in> set resp"
    then obtain j where "j < length resp" "resp ! j = CHR ''}''" by (auto simp: in_set_conv_nth)
    then have "0 < Suc j \<and> Suc j < length (a # resp) \<and> (a # resp) ! 0 = CHR ''{'' \<and> (a # resp) ! Suc j = CHR ''}''"
      using h by simp
    with Cons.prems show False by blast
  qed
  show ?case using Cons.IH [OF tl] hd by (auto simp: match_here_jsonPattern)
qed

lemma first_to_last_decomp:
  assumes "CHR ''{'' \<notin> set pre" and "CHR ''}'' \<notin> set post"
  shows "first_to_last (pre @ CHR ''{'' # mid @ CHR ''}'' # post) = CHR ''{'' # mid @ ''}''"
proof -
  have 1: "dropWhile (\<lambda>c. c \<noteq> CHR ''{'') (pre @ CHR ''{'' # mid @ CHR ''}'' # post) = CHR ''{'' # mid @ CHR ''}'' # post"
    using assms(1) by (auto simp: dropWhile_append3)
  have 2: "dropWhile (\<lambda>c. c \<noteq> CHR ''}'') (rev post) = []"
    using assms(2) by (auto simp: dropWhile_eq_Nil_conv)
  show ?thesis unfolding first_to_last_def 1 using 2 by (simp add: dropWhile_append)
qed

lemma brace_decomp:
  assumes "i < j" "j < length resp" "resp ! i = CHR ''{''" "resp ! j = CHR ''}''"
  shows "\<exists>pre mid post. resp = pre @ CHR ''{'' # mid @ CHR ''}'' # post \<and> CHR ''{'' \<notin> set pre \<and> CHR ''}'' \<notin> set post"
proof -
  have o: "CHR ''{'' \<in> set resp" using assms by (metis less_trans nth_mem)
  then obtain pre r where t: "resp = pre @ CHR ''{'' # r" "CHR ''{'' \<notin> set pre"
    by (meson split_list_first)
  have li: "length pre \<le> i"
  proof (rule ccontr)
    assume "\<not> length pre \<le> i"
    then have "i < length pre" by simp
    then have "resp ! i \<in> set pre" using t(1) by (simp add: nth_append)
    with assms(3) t(2) show False by simp
  qed
  have "r ! (j - Suc (length pre)) = CHR ''}''" "j - Suc (length pre) < length r"
    using assms li t(1) by (auto simp: nth_append nth_Cons')
  then have "CHR ''}'' \<in> set r" by (metis nth_mem)
  then obtain mid post where r: "r = mid @ CHR ''}'' # post" "CHR ''}'' \<notin> set post"
    by (meson split_list_last)
  show ?thesis using t r by auto
qed


text \<open>
  C7: for every response text with a \<^verbatim>\<open>{\<close> at some index and a \<^verbatim>\<open>}\<close> at a later one,
  the substring the match hands to \<^verbatim>\<open>JSON.parse\<close> is the span from the first \<^verbatim>\<open>{\<close> of
  the text through the last \<^verbatim>\<open>}\<close> of the text, whatever lies between them.
\<close>

theorem responseMatch_first_to_last:
  assumes "i < j" "j < length resp" "resp ! i = CHR ''{''" "resp ! j = CHR ''}''"
  shows "responseMatch resp = Some (first_to_last resp)"
proof -
  obtain pre mid post where "resp = pre @ CHR ''{'' # mid @ CHR ''}'' # post" "CHR ''{'' \<notin> set pre" "CHR ''}'' \<notin> set post"
    using brace_decomp [OF assms] by blast
  then show ?thesis by (simp add: responseMatch_span first_to_last_decomp)
qed


theorem responseMatch_first_to_last_witness:
  "(3::nat) < 5 \<and> 5 < length ''ab {x} {y} z}} q'' \<and> ''ab {x} {y} z}} q'' ! 3 = CHR ''{'' \<and>
   ''ab {x} {y} z}} q'' ! 5 = CHR ''}'' \<and>
   responseMatch ''ab {x} {y} z}} q'' = Some ''{x} {y} z}}''"
  using responseMatch_first_to_last [of 3 5 "''ab {x} {y} z}} q''"]
  by (simp add: first_to_last_def)

section \<open>The output writer\<close>

lemma dots_butlast: "dots q \<Longrightarrow> dots (butlast q)"
  by (auto simp: dots_def list_all_iff dest: in_set_butlastD)

lemma dots_prefix: "dots q \<Longrightarrow> prefix q' q \<Longrightarrow> dots q'"
  by (auto simp: dots_def list_all_iff prefix_def)

lemma node_at_parent_dir:
  "wf_fs fs \<Longrightarrow> node_at fs (a, q) \<noteq> None \<Longrightarrow> node_at fs (a, butlast q) = Some Dir"
proof (cases "dots q")
  case True
  then show ?thesis by (simp add: node_at_def dots_butlast)
next
  case False
  assume w: "wf_fs fs" and n: "node_at fs (a, q) \<noteq> None"
  from n False have "fs (a, q) \<noteq> None" by (simp add: node_at_def)
  with w show ?thesis unfolding wf_fs_def by blast
qed

lemma wf_dir_prefix:
  "wf_fs fs \<Longrightarrow> node_at fs (a, q) \<noteq> None \<Longrightarrow> prefix q' q \<Longrightarrow> q' \<noteq> q \<Longrightarrow> node_at fs (a, q') = Some Dir"
proof (induction q arbitrary: q' rule: rev_induct)
  case Nil
  then show ?case by simp
next
  case (snoc x xs)
  have par: "node_at fs (a, xs) = Some Dir"
    using node_at_parent_dir [OF snoc.prems(1,2)] by simp
  from snoc.prems(3,4) have "prefix q' xs" by (auto simp: prefix_snoc)
  then show ?case
    using snoc.IH [OF snoc.prems(1), of q'] par by (cases "q' = xs") auto
qed

lemma wf_not_blocked:
  "wf_fs fs \<Longrightarrow> node_at fs (a, q) \<noteq> None \<Longrightarrow> \<not> blocked fs (a, q)"
proof
  assume w: "wf_fs fs" and n: "node_at fs (a, q) \<noteq> None" and b: "blocked fs (a, q)"
  then obtain q' where q': "prefix q' q" "q' \<noteq> q" "is_file (node_at fs (a, q'))"
    by (auto simp: blocked_def list_ex_iff)
  from wf_dir_prefix [OF w n q'(1,2)] q'(3) show False by (simp add: is_file_def)
qed

lemma wf_not_blocked_parent:
  "wf_fs fs \<Longrightarrow> node_at fs (a, butlast q) = Some Dir \<Longrightarrow> \<not> blocked fs (a, q)"
proof
  assume w: "wf_fs fs" and d: "node_at fs (a, butlast q) = Some Dir" and b: "blocked fs (a, q)"
  then obtain q' where q': "prefix q' q" "q' \<noteq> q" "is_file (node_at fs (a, q'))"
    by (auto simp: blocked_def list_ex_iff)
  then have "prefix q' (butlast q)"
    by (metis prefix_snoc append_butlast_last_id prefix_Nil)
  then have "node_at fs (a, q') = Some Dir"
    using wf_dir_prefix [OF w, of a "butlast q" q'] d by (cases "q' = butlast q") auto
  with q'(3) show False by (simp add: is_file_def)
qed

lemma existsSync_wf:
  "wf_fs fs \<Longrightarrow> existsSync fs p =
     (case node_at fs (loc p) of None \<Rightarrow> False | Some Dir \<Rightarrow> True | Some (File c) \<Rightarrow> \<not> trailing p)"
  using wf_not_blocked [of fs "absolute p" "comps p"]
  by (auto simp: existsSync_def loc_def split: option.splits node.splits)

lemma mkdirSync_Inr:
  "mkdirSync p fs = Inr fs' \<Longrightarrow>
     fs' = mk p fs \<and> \<not> blocked fs (loc p) \<and> \<not> is_file (node_at fs (loc p))"
  by (auto simp: mkdirSync_def mk_def split: if_splits)

lemma node_at_mk:
  "node_at (mk p fs) k =
     (if fst k = absolute p \<and> prefix (snd k) (comps p) \<and> node_at fs k = None
      then Some Dir else node_at fs k)"
  by (auto simp: node_at_def mk_def)

lemma mk_target:
  "\<not> is_file (node_at fs (loc p)) \<Longrightarrow> node_at (mk p fs) (loc p) = Some Dir"
  by (cases "node_at fs (loc p)") (auto simp: node_at_mk loc_def is_file_def split: node.splits)

lemma not_blocked_prefix:
  assumes "\<not> blocked fs (a, q)" "\<not> is_file (node_at fs (a, q))" "prefix q' q"
  shows "\<not> is_file (node_at fs (a, q'))"
  using assms by (cases "q' = q") (auto simp: blocked_def list_ex_iff)

lemma prefix_butlast_self: "prefix q' q \<Longrightarrow> prefix (butlast q') q"
  by (metis prefix_order.dual_order.trans prefixeq_butlast)

lemma wf_mk:
  assumes w: "wf_fs fs" and nb: "\<not> blocked fs (loc p)" and nf: "\<not> is_file (node_at fs (loc p))"
  shows "wf_fs (mk p fs)"
  unfolding wf_fs_def
proof (intro allI impI)
  fix a q
  assume ne: "mk p fs (a, q) \<noteq> None"
  show "node_at (mk p fs) (a, butlast q) = Some Dir"
  proof (cases "fs (a, q) = None")
    case True
    with ne have c: "a = absolute p" "prefix q (comps p)"
      by (auto simp: mk_def split: if_splits)
    have pb: "prefix (butlast q) (comps p)" using c(2) by (rule prefix_butlast_self)
    have "\<not> is_file (node_at fs (a, butlast q))"
      using not_blocked_prefix [of fs "absolute p" "comps p" "butlast q"] nb nf pb c(1)
      by (simp add: loc_def)
    then show ?thesis using c(1) pb
      by (cases "node_at fs (a, butlast q)") (auto simp: node_at_mk is_file_def split: node.splits)
  next
    case False
    then have "node_at fs (a, butlast q) = Some Dir" using w by (auto simp: wf_fs_def)
    then show ?thesis by (simp add: node_at_mk)
  qed
qed

lemma ext_dir: "ext fs fs' \<Longrightarrow> node_at fs k = Some Dir \<Longrightarrow> node_at fs' k = Some Dir"
  unfolding ext_def by (elim allE [of _ k]) simp

lemma ext_file: "ext fs fs' \<Longrightarrow> is_file (node_at fs k) \<Longrightarrow> is_file (node_at fs' k)"
  unfolding ext_def by (elim allE [of _ k]) simp

lemma frame_keep: "frame W fs fs' \<Longrightarrow> k \<notin> W \<Longrightarrow> fs k \<noteq> None \<Longrightarrow> fs' k = fs k"
  unfolding frame_def by (elim allE [of _ k]) auto

lemma ext_refl: "ext fs fs"
  by (simp add: ext_def)

lemma ext_trans: "ext a b \<Longrightarrow> ext b c \<Longrightarrow> ext a c"
  unfolding ext_def by blast

lemma ext_mk: "ext fs (mk p fs)"
  by (auto simp: ext_def node_at_mk is_file_def)

lemma frame_refl: "frame W fs fs"
  by (simp add: frame_def)

lemma frame_trans: "frame W1 a b \<Longrightarrow> frame W2 b c \<Longrightarrow> frame (W1 \<union> W2) a c"
  unfolding frame_def by (metis Un_iff)

lemma frame_mono: "frame W a b \<Longrightarrow> W \<subseteq> W' \<Longrightarrow> frame W' a b"
  unfolding frame_def by blast

lemma frame_mk: "frame {} fs (mk p fs)"
  by (auto simp: frame_def mk_def node_at_def split: if_splits)

lemma frame_write: "frame {l} fs (fs(l \<mapsto> n))"
  by (simp add: frame_def)

lemma writeFileSync_Inr:
  "writeFileSync p c fs = Inr fs' \<Longrightarrow>
     fs' = fs(loc p \<mapsto> File c) \<and> \<not> trailing p \<and> node_at fs (loc p) \<noteq> Some Dir \<and>
     node_at fs (loc (path_dirname p)) \<noteq> None \<and> \<not> blocked fs (loc p)"
  by (auto simp: writeFileSync_def split: if_splits)

lemma not_dots_target: "node_at fs l \<noteq> Some Dir \<Longrightarrow> \<not> dots (snd l)"
  by (auto simp: node_at_def)

lemma write_parent_dir:
  assumes "writeFileSync p c fs = Inr fs'"
  shows "node_at fs (loc (path_dirname p)) = Some Dir"
proof -
  from writeFileSync_Inr [OF assms] have
    nd: "node_at fs (loc p) \<noteq> Some Dir" and pn: "node_at fs (loc (path_dirname p)) \<noteq> None"
    and nb: "\<not> blocked fs (loc p)" by auto
  from nd have "\<not> dots (comps p)" by (auto simp: node_at_def loc_def)
  then have ne: "comps p \<noteq> []" by (auto simp: dots_def)
  then have "butlast (comps p) \<noteq> comps p" by (metis append_butlast_last_id append_self_conv list.distinct(1))
  moreover have "prefix (butlast (comps p)) (comps p)" by (rule prefixeq_butlast)
  ultimately have "\<not> is_file (node_at fs (absolute p, butlast (comps p)))"
    using nb by (auto simp: blocked_def list_ex_iff loc_def)
  with pn show ?thesis
    by (cases "node_at fs (loc (path_dirname p))")
       (auto simp: loc_def path_dirname_def is_file_def split: node.splits)
qed

lemma node_at_write:
  "\<not> dots (snd l) \<Longrightarrow> node_at (fs(l \<mapsto> n)) k = (if k = l then Some n else node_at fs k)"
  by (auto simp: node_at_def)

lemma ext_write: "node_at fs l \<noteq> Some Dir \<Longrightarrow> ext fs (fs(l \<mapsto> File c))"
  by (frule not_dots_target) (auto simp: ext_def node_at_write is_file_def)

lemma wf_write:
  assumes w: "wf_fs fs" and nd: "node_at fs l \<noteq> Some Dir"
    and pd: "node_at fs (fst l, butlast (snd l)) = Some Dir"
  shows "wf_fs (fs(l \<mapsto> File c))"
  unfolding wf_fs_def
proof (intro allI impI)
  fix a q
  assume ne: "(fs(l \<mapsto> File c)) (a, q) \<noteq> None"
  have ndl: "\<not> dots (snd l)" using nd by (rule not_dots_target)
  have old: "node_at fs (a, butlast q) = Some Dir"
  proof (cases "(a, q) = l")
    case True
    then show ?thesis using pd by auto
  next
    case False
    with ne have "fs (a, q) \<noteq> None" by auto
    then show ?thesis using w by (auto simp: wf_fs_def)
  qed
  then have "(a, butlast q) \<noteq> l" using nd by auto
  then show "node_at (fs(l \<mapsto> File c)) (a, butlast q) = Some Dir"
    using old by (simp add: node_at_write [OF ndl])
qed

lemma write_replay:
  assumes w: "wf_fs T" and pd: "node_at T (loc (path_dirname p)) = Some Dir"
    and nt: "\<not> trailing p" and nd: "node_at T (loc p) \<noteq> Some Dir"
  shows "writeFileSync p c T = Inr (T(loc p \<mapsto> File c))"
proof -
  have "\<not> blocked T (loc p)"
    using wf_not_blocked_parent [OF w, of "absolute p" "comps p"] pd
    by (simp add: loc_def path_dirname_def)
  then show ?thesis using pd nt nd by (simp add: writeFileSync_def)
qed

lemma ensureDir_Inr:
  assumes w: "wf_fs fs" and e: "ensureDir d fs = Inr fs1"
  shows "wf_fs fs1 \<and> ext fs fs1 \<and> existsSync fs1 d"
proof (cases "existsSync fs d")
  case True
  then show ?thesis using w e by (simp add: ensureDir_def ext_refl)
next
  case False
  with e have m: "mkdirSync d fs = Inr fs1" by (simp add: ensureDir_def)
  from mkdirSync_Inr [OF m] have f: "fs1 = mk d fs" "\<not> blocked fs (loc d)" "\<not> is_file (node_at fs (loc d))"
    by auto
  have w1: "wf_fs fs1" using wf_mk [OF w f(2,3)] f(1) by simp
  have "node_at fs1 (loc d) = Some Dir" using mk_target [OF f(3)] f(1) by simp
  then have "existsSync fs1 d" by (simp add: existsSync_wf [OF w1])
  then show ?thesis using w1 f(1) ext_mk by simp
qed

lemma ensureDir_frame: "ensureDir d fs = Inr fs1 \<Longrightarrow> frame {} fs fs1"
  by (auto simp: ensureDir_def frame_refl frame_mk dest!: mkdirSync_Inr split: if_splits)

lemma ensureDir_exists: "existsSync fs d \<Longrightarrow> ensureDir d fs = Inr fs"
  by (simp add: ensureDir_def)

lemma run_step_None:
  assumes "run_step (m, p, c) fs = (None, fs')"
  shows "\<exists>fs1. (if m then ensureDir (path_dirname p) fs else Inr fs) = Inr fs1 \<and>
               writeFileSync p c fs1 = Inr fs' \<and> fs' = fs1(loc p \<mapsto> File c)"
  using assms writeFileSync_Inr
  by (auto simp: run_step_def split: sum.splits if_splits)

lemma run_step_props:
  assumes w: "wf_fs fs" and r: "run_step (m, p, c) fs = (None, fs')"
  shows "wf_fs fs' \<and> ext fs fs' \<and> frame {loc p} fs fs' \<and> fs' (loc p) = Some (File c) \<and>
         \<not> trailing p \<and> \<not> dots (comps p) \<and> node_at fs' (loc (path_dirname p)) = Some Dir"
proof -
  from run_step_None [OF r] obtain fs1 where
    e: "(if m then ensureDir (path_dirname p) fs else Inr fs) = Inr fs1"
    and wr: "writeFileSync p c fs1 = Inr fs'" and eq: "fs' = fs1(loc p \<mapsto> File c)" by blast
  have w1: "wf_fs fs1 \<and> ext fs fs1 \<and> frame {} fs fs1"
    using e w ensureDir_Inr [OF w] ensureDir_frame
    by (cases m) (auto simp: ext_refl frame_refl)
  from writeFileSync_Inr [OF wr] have nt: "\<not> trailing p" and nd: "node_at fs1 (loc p) \<noteq> Some Dir"
    by auto
  have pd: "node_at fs1 (loc (path_dirname p)) = Some Dir" using wr by (rule write_parent_dir)
  have ndl: "\<not> dots (comps p)" using not_dots_target [OF nd] by (simp add: loc_def)
  have w2: "wf_fs fs'"
    using wf_write [of fs1 "loc p" c] w1 nd pd eq by (simp add: loc_def path_dirname_def)
  have e2: "ext fs fs'" using ext_trans [of fs fs1 fs'] w1 ext_write [OF nd] eq by simp
  have f2: "frame {loc p} fs fs'"
    using frame_trans [of "{}" fs fs1 "{loc p}" fs'] w1 frame_write [of "loc p" fs1] eq by simp
  have "loc (path_dirname p) \<noteq> loc p" using pd nd by auto
  then have "node_at fs' (loc (path_dirname p)) = Some Dir"
    using pd eq ndl by (simp add: node_at_write loc_def)
  then show ?thesis using w2 e2 f2 eq nt ndl by simp
qed

lemma run_step_Some:
  assumes w: "wf_fs fs" and r: "run_step st fs = (Some e, fs')"
  shows "wf_fs fs' \<and> ext fs fs' \<and> frame {} fs fs' \<and> run_step st fs' = (Some e, fs')"
proof (cases "if fst st then ensureDir (path_dirname (fst (snd st))) fs else Inr fs")
  case (Inl a)
  then show ?thesis using r w by (auto simp: run_step_def ext_refl frame_refl)
next
  case (Inr fs1)
  with r have wr: "writeFileSync (fst (snd st)) (snd (snd st)) fs1 = Inl e" and eq: "fs' = fs1"
    by (auto simp: run_step_def split: sum.splits)
  show ?thesis
  proof (cases "fst st")
    case True
    with Inr have en: "ensureDir (path_dirname (fst (snd st))) fs = Inr fs1" by simp
    from ensureDir_Inr [OF w en] ensureDir_frame [OF en]
    have p: "wf_fs fs1" "ext fs fs1" "existsSync fs1 (path_dirname (fst (snd st)))" "frame {} fs fs1"
      by auto
    have "ensureDir (path_dirname (fst (snd st))) fs1 = Inr fs1"
      using p(3) by (rule ensureDir_exists)
    then have "run_step st fs1 = (Some e, fs1)" using True wr by (simp add: run_step_def)
    then show ?thesis using p eq by simp
  next
    case False
    with Inr have "fs1 = fs" by simp
    then show ?thesis using r w eq by (simp add: ext_refl frame_refl)
  qed
qed

lemma run_steps_props:
  "wf_fs fs \<Longrightarrow> run_steps sts fs = (r, S) \<Longrightarrow>
     wf_fs S \<and> ext fs S \<and> frame (written sts fs) fs S \<and>
     (\<forall>k \<in> written sts fs. is_file (node_at S k)) \<and> written sts fs \<subseteq> targets sts"
proof (induction sts arbitrary: fs)
  case Nil
  then show ?case by (simp add: ext_refl frame_refl)
next
  case (Cons st rest)
  obtain m p c where st: "st = (m, p, c)" by (cases st) auto
  show ?case
  proof (cases "run_step st fs")
    case (Pair o1 fs1)
    show ?thesis
    proof (cases o1)
      case (Some e)
      with Pair Cons.prems(2) have eq: "S = fs1" "r = Some e" by auto
      have rs: "run_step st fs = (Some e, fs1)" using Pair Some by simp
      have wn: "written (st # rest) fs = {}" using rs by simp
      from run_step_Some [OF Cons.prems(1) rs]
      have "wf_fs fs1" "ext fs fs1" "frame {} fs fs1" by auto
      then show ?thesis unfolding wn eq by (intro conjI) simp_all
    next
      case None
      with Pair Cons.prems(2) have rest: "run_steps rest fs1 = (r, S)" by simp
      have rs: "run_step (m, p, c) fs = (None, fs1)" using Pair None st by simp
      from run_step_props [OF Cons.prems(1) rs]
      have p: "wf_fs fs1" "ext fs fs1" "frame {loc p} fs fs1" "fs1 (loc p) = Some (File c)"
        "\<not> dots (comps p)" by auto
      from Cons.IH [OF p(1) rest]
      have ih: "wf_fs S" "ext fs1 S" "frame (written rest fs1) fs1 S"
        "\<forall>k \<in> written rest fs1. is_file (node_at S k)" "written rest fs1 \<subseteq> targets rest" by auto
      have wr: "written (st # rest) fs = insert (loc p) (written rest fs1)"
        using Pair None st by simp
      have "is_file (node_at fs1 (loc p))" using p(4,5) by (simp add: node_at_def loc_def is_file_def)
      then have fl: "is_file (node_at S (loc p))" using ih(2) by (rule ext_file [rotated])
      have fr: "frame (written (st # rest) fs) fs S"
        unfolding wr using frame_trans [OF p(3) ih(3)] by simp
      have sub: "written (st # rest) fs \<subseteq> targets (st # rest)"
        using ih(5) st unfolding wr by (auto simp: targets_def)
      have fls: "\<forall>k \<in> written (st # rest) fs. is_file (node_at S k)"
        using fl ih(4) unfolding wr by blast
      have e2: "ext fs S" using p(2) ih(2) by (rule ext_trans)
      show ?thesis
        by (intro conjI) (fact ih(1), fact e2, fact fr, fact fls, fact sub)
    qed
  qed
qed

lemma run_steps_replay:
  "wf_fs fs \<Longrightarrow> run_steps sts fs = (r, S) \<Longrightarrow> wf_fs T \<Longrightarrow>
   (\<forall>k. k \<notin> written sts fs \<longrightarrow> T k = S k) \<Longrightarrow>
   (\<forall>k \<in> written sts fs. is_file (node_at T k)) \<Longrightarrow>
   run_steps sts T = (r, S)"
proof (induction sts arbitrary: fs T)
  case Nil
  then show ?case by auto
next
  case (Cons st rest)
  obtain m p c where st: "st = (m, p, c)" by (cases st) auto
  show ?case
  proof (cases "run_step st fs")
    case (Pair o1 fs1)
    show ?thesis
    proof (cases o1)
      case (Some e)
      with Pair Cons.prems(2) have eq: "S = fs1" "r = Some e" by auto
      have "written (st # rest) fs = {}" using Pair Some by simp
      have "T = S"
      proof (rule ext)
        fix k
        have "k \<notin> written (st # rest) fs" unfolding \<open>written (st # rest) fs = {}\<close> by simp
        then show "T k = S k" using Cons.prems(4) by blast
      qed
      moreover have rs: "run_step st fs = (Some e, fs1)" using Pair Some by simp
      moreover have "run_step st fs1 = (Some e, fs1)" using run_step_Some [OF Cons.prems(1) rs] by simp
      ultimately show ?thesis unfolding eq by simp
    next
      case None
      with Pair Cons.prems(2) have rest: "run_steps rest fs1 = (r, S)" by simp
      have rs: "run_step (m, p, c) fs = (None, fs1)" using Pair None st by simp
      from run_step_props [OF Cons.prems(1) rs]
      have p: "wf_fs fs1" "fs1 (loc p) = Some (File c)" "\<not> trailing p"
        "\<not> dots (comps p)" "node_at fs1 (loc (path_dirname p)) = Some Dir" by auto
      from run_steps_props [OF p(1) rest]
      have q: "ext fs1 S" "frame (written rest fs1) fs1 S"
        "\<forall>k \<in> written rest fs1. is_file (node_at S k)" by auto
      have wr: "written (st # rest) fs = insert (loc p) (written rest fs1)"
        using Pair None st by simp
      have dS: "node_at S (loc (path_dirname p)) = Some Dir" using q(1) p(5) by (rule ext_dir)
      have "loc (path_dirname p) \<notin> written (st # rest) fs"
      proof
        assume "loc (path_dirname p) \<in> written (st # rest) fs"
        then have "is_file (node_at T (loc (path_dirname p)))" using Cons.prems(5) by blast
        moreover have "is_file (node_at S (loc (path_dirname p)))"
        proof -
          have "is_file (node_at fs1 (loc p))"
            using p(2,4) by (simp add: node_at_def loc_def is_file_def)
          then have "is_file (node_at S (loc p))" using q(1) by (rule ext_file [rotated])
          moreover have "loc (path_dirname p) = loc p \<or> loc (path_dirname p) \<in> written rest fs1"
            using \<open>loc (path_dirname p) \<in> written (st # rest) fs\<close> unfolding wr by simp
          ultimately show ?thesis using q(3) by (elim disjE) simp_all
        qed
        ultimately show False using dS by (simp add: is_file_def)
      qed
      then have "T (loc (path_dirname p)) = S (loc (path_dirname p))" using Cons.prems(4) by blast
      then have dT: "node_at T (loc (path_dirname p)) = Some Dir"
        using dS by (auto simp: node_at_def)
      have "loc p \<in> written (st # rest) fs" unfolding wr by simp
      then have fT: "is_file (node_at T (loc p))" using Cons.prems(5) by blast
      then have ndT: "node_at T (loc p) \<noteq> Some Dir" by (auto simp: is_file_def)
      have wT: "writeFileSync p c T = Inr (T(loc p \<mapsto> File c))"
        using write_replay [OF Cons.prems(3) dT p(3) ndT] .
      have "existsSync T (path_dirname p)"
        using dT by (simp add: existsSync_wf [OF Cons.prems(3)])
      then have "ensureDir (path_dirname p) T = Inr T" by (rule ensureDir_exists)
      then have stepT: "run_step st T = (None, T(loc p \<mapsto> File c))"
        using wT st by (simp add: run_step_def)
      have wT1: "wf_fs (T(loc p \<mapsto> File c))"
        using wf_write [OF Cons.prems(3) ndT] dT by (simp add: loc_def path_dirname_def)
      have a4: "\<forall>k. k \<notin> written rest fs1 \<longrightarrow> (T(loc p \<mapsto> File c)) k = S k"
      proof (intro allI impI)
        fix k assume k: "k \<notin> written rest fs1"
        show "(T(loc p \<mapsto> File c)) k = S k"
        proof (cases "k = loc p")
          case True
          then have "S k = fs1 k" using frame_keep [OF q(2) k] p(2) by simp
          then show ?thesis using True p(2) by simp
        next
          case False
          then have "k \<notin> written (st # rest) fs" using k wr by simp
          then have "T k = S k" using Cons.prems(4) by blast
          then show ?thesis using False by simp
        qed
      qed
      have ndp: "\<not> dots (snd (loc p))" using p(4) by (simp add: loc_def)
      have a5: "\<forall>k \<in> written rest fs1. is_file (node_at (T(loc p \<mapsto> File c)) k)"
      proof
        fix k assume "k \<in> written rest fs1"
        then have "is_file (node_at T k)" using Cons.prems(5) wr by blast
        then show "is_file (node_at (T(loc p \<mapsto> File c)) k)"
          by (cases "k = loc p") (simp_all add: node_at_write [OF ndp] is_file_def)
      qed
      have "run_steps rest (T(loc p \<mapsto> File c)) = (r, S)"
        using Cons.IH [OF p(1) rest wT1 a4 a5] .
      then show ?thesis using stepT by simp
    qed
  qed
qed

lemma run_steps_append:
  "run_steps (xs @ ys) fs =
     (case run_steps xs fs of (Some e, fs1) \<Rightarrow> (Some e, fs1) | (None, fs1) \<Rightarrow> run_steps ys fs1)"
  by (induction xs arbitrary: fs) (auto split: prod.splits option.splits)

lemma run_steps_idem:
  assumes w: "wf_fs fs" and r: "run_steps sts fs = (r, S)"
  shows "run_steps sts S = (r, S)"
proof -
  from run_steps_props [OF w r] have a: "wf_fs S" and b: "\<forall>k \<in> written sts fs. is_file (node_at S k)"
    by blast+
  have c: "\<forall>k. k \<notin> written sts fs \<longrightarrow> S k = S k" by simp
  show ?thesis using run_steps_replay [OF w r a c b] .
qed

lemma saveOutput_file_step: "saveOutput_file out f fs = run_step (file_step out f) fs"
  by (simp add: saveOutput_file_def run_step_def file_step_def Let_def split: sum.splits)

lemma saveOutput_files_steps: "saveOutput_files out fl fs = run_steps (map (file_step out) fl) fs"
  by (induction fl arbitrary: fs) (simp_all add: saveOutput_file_step split: prod.splits option.splits)

lemma run_setup_steps:
  "run_steps (setup_steps code out) fs =
     (if instructions code \<noteq> [] then
        (case writeFileSync (path_join out ''SETUP.md'') (setupText (instructions code)) fs of
           Inl e \<Rightarrow> (Some e, fs) | Inr fs3 \<Rightarrow> (None, fs3))
      else (None, fs))"
  by (simp add: setup_steps_def run_step_def split: sum.splits)

lemma saveOutput_steps:
  "saveOutput code out fs =
     (case ensureDir_str out fs of
        (Some e, fs1) \<Rightarrow> (Some e, fs1)
      | (None, fs1) \<Rightarrow> run_steps (steps_of code out) fs1)"
  by (simp add: saveOutput_def steps_of_def run_steps_append saveOutput_files_steps
      run_setup_steps Let_def split: sum.splits prod.splits option.splits)

lemma existsSync_ext:
  assumes "wf_fs fs" "wf_fs fs'" "ext fs fs'" "existsSync fs d"
  shows "existsSync fs' d"
proof (cases "node_at fs (loc d)")
  case None
  then show ?thesis using assms(1,4) by (simp add: existsSync_wf)
next
  case (Some n)
  show ?thesis
  proof (cases n)
    case (File c)
    with Some assms(1,4) have nt: "\<not> trailing d" by (simp add: existsSync_wf)
    have "is_file (node_at fs' (loc d))"
      using ext_file [OF assms(3), of "loc d"] Some File by (simp add: is_file_def)
    then show ?thesis using nt
      by (auto simp: existsSync_wf [OF assms(2)] is_file_def split: option.splits node.splits)
  next
    case Dir
    then have "node_at fs' (loc d) = Some Dir" using ext_dir [OF assms(3)] Some by simp
    then show ?thesis by (simp add: existsSync_wf [OF assms(2)])
  qed
qed




subsection \<open>Path strings as the caller wrote them\<close>

lemma normalizeString_up:
  "normalizeString (\<not> a) cur (''..'' # segs) = normalizeString (\<not> a) (up a cur) segs"
  by (simp add: up_def)

lemma normalizeString_empty:
  "list_all (\<lambda>t. t = []) segs \<Longrightarrow> normalizeString b cur segs = cur"
  by (induction segs) auto

lemma mkdirp_empty: "list_all (\<lambda>t. t = []) segs \<Longrightarrow> mkdirp a cur segs fs = (None, fs)"
  by (induction segs) auto

lemma dots_first_Nil: "dots_first []"
  by (simp add: dots_first_def)

lemma dots_first_dots: "dots_first cur \<Longrightarrow> cur = [] \<or> last cur = ''..'' \<Longrightarrow> dots cur"
  unfolding dots_first_def by (cases "cur = []") (auto simp: dots_def)

lemma dots_first_butlast: "dots_first cur \<Longrightarrow> dots_first (butlast cur)"
  unfolding dots_first_def using prefix_order.trans [OF _ prefixeq_butlast] by blast

lemma dots_first_snoc:
  assumes "dots_first cur" and "seg \<noteq> ''..'' \<or> dots cur"
  shows "dots_first (cur @ [seg])"
  unfolding dots_first_def
proof (intro allI impI)
  fix q assume q: "prefix q (cur @ [seg]) \<and> q \<noteq> [] \<and> last q = ''..''"
  show "dots q"
  proof (cases "q = cur @ [seg]")
    case True
    with q assms(2) show ?thesis by (auto simp: dots_def)
  next
    case False
    with q have "prefix q cur" by (auto simp: prefix_snoc)
    with q assms(1) show ?thesis unfolding dots_first_def by blast
  qed
qed

lemma up_inv:
  assumes w: "wf_fs fs" and d: "node_at fs (a, cur) = Some Dir" and c: "dots_first cur"
  shows "node_at fs (a, up a cur) = Some Dir \<and> dots_first (up a cur)"
proof (cases "cur \<noteq> [] \<and> last cur \<noteq> ''..''")
  case True
  then have "up a cur = butlast cur" by (simp add: up_def)
  then show ?thesis using node_at_parent_dir [OF w, of a cur] d dots_first_butlast [OF c] by simp
next
  case False
  then have dc: "dots cur" using dots_first_dots [OF c] by blast
  show ?thesis
  proof (cases a)
    case True
    then have "up a cur = cur" using False by (auto simp: up_def)
    then show ?thesis using d c by simp
  next
    case no: False
    then have u: "up a cur = cur @ [''..'']" using False by (auto simp: up_def)
    have "dots (cur @ [''..''])" using dc by (simp add: dots_def)
    then have "node_at fs (a, cur @ [''..'']) = Some Dir" by (simp add: node_at_def)
    then show ?thesis using u dots_first_snoc [OF c, of "''..''"] dc by simp
  qed
qed

lemma node_at_None_not_dots: "node_at fs l = None \<Longrightarrow> \<not> dots (snd l)"
  by (auto simp: node_at_def)

lemma make_dir:
  assumes w: "wf_fs fs" and d: "node_at fs (a, cur) = Some Dir"
    and n: "node_at fs (a, cur @ [seg]) = None"
  shows "wf_fs (fs((a, cur @ [seg]) \<mapsto> Dir)) \<and> ext fs (fs((a, cur @ [seg]) \<mapsto> Dir)) \<and>
         frame {} fs (fs((a, cur @ [seg]) \<mapsto> Dir)) \<and>
         node_at (fs((a, cur @ [seg]) \<mapsto> Dir)) (a, cur @ [seg]) = Some Dir"
proof -
  let ?l = "(a, cur @ [seg])"
  let ?fs = "fs(?l \<mapsto> Dir)"
  have nd: "\<not> dots (snd ?l)" using node_at_None_not_dots [OF n] .
  have na: "node_at ?fs k = (if k = ?l then Some Dir else node_at fs k)" for k
    using node_at_write [OF nd, of fs Dir k] .
  have fn: "fs ?l = None" using n nd by (simp add: node_at_def)
  have e: "ext fs ?fs" unfolding ext_def using n by (auto simp: na is_file_def)
  have f: "frame {} fs ?fs" unfolding frame_def using fn by auto
  have "wf_fs ?fs"
    unfolding wf_fs_def
  proof (intro allI impI)
    fix b q assume ne: "?fs (b, q) \<noteq> None"
    have "node_at fs (b, butlast q) = Some Dir"
    proof (cases "(b, q) = ?l")
      case True
      then show ?thesis using d by auto
    next
      case False
      with ne have "fs (b, q) \<noteq> None" by auto
      then show ?thesis using w by (auto simp: wf_fs_def)
    qed
    then show "node_at ?fs (b, butlast q) = Some Dir" using ext_dir [OF e] by blast
  qed
  then show ?thesis using e f by (simp add: na)
qed

lemma walk_ext: "ext fs fs' \<Longrightarrow> walk fs a cur segs = None \<Longrightarrow> walk fs' a cur segs = None"
proof (induction segs arbitrary: cur)
  case Nil
  then show ?case by simp
next
  case (Cons seg segs)
  show ?case
  proof (cases "seg = [] \<or> seg = ''.'' \<or> seg = ''..'' \<or> list_all (\<lambda>t. t = []) segs")
    case True
    then show ?thesis using Cons by (auto split: if_splits)
  next
    case False
    with Cons.prems(2) have d: "node_at fs (a, cur @ [seg]) = Some Dir"
      and r: "walk fs a (cur @ [seg]) segs = None"
      by (auto split: option.splits node.splits)
    have "node_at fs' (a, cur @ [seg]) = Some Dir" using ext_dir [OF Cons.prems(1) d] .
    then show ?thesis using False Cons.IH [OF Cons.prems(1) r] by simp
  qed
qed

lemma existsSync_str_ext:
  assumes "wf_fs fs" "wf_fs fs'" "ext fs fs'" "existsSync_str fs p"
  shows "existsSync_str fs' p"
proof -
  from assms(4) have ne: "p \<noteq> []" and wk: "walk fs (hd p = CHR ''/'') [] (split_slash p) = None"
    and ex: "existsSync fs (normalize p)"
    by (auto simp: existsSync_str_def resolve_def split: if_splits option.splits sum.splits)
  have "walk fs' (hd p = CHR ''/'') [] (split_slash p) = None" using walk_ext [OF assms(3) wk] .
  moreover have "existsSync fs' (normalize p)" using existsSync_ext [OF assms(1,2,3) ex] .
  ultimately show ?thesis using ne by (simp add: existsSync_str_def resolve_def)
qed

lemma mkdirp_props:
  "wf_fs fs \<Longrightarrow> node_at fs (a, cur) = Some Dir \<Longrightarrow> dots_first cur \<Longrightarrow>
   mkdirp a cur segs fs = (r, fs') \<Longrightarrow>
     wf_fs fs' \<and> ext fs fs' \<and> frame {} fs fs' \<and> mkdirp a cur segs fs' = (r, fs') \<and>
     (r = None \<longrightarrow> walk fs' a cur segs = None \<and>
                     node_at fs' (a, normalizeString (\<not> a) cur segs) = Some Dir) \<and>
     (r = Some ENOTDIR \<longrightarrow>
        walk fs' a cur segs = Some ENOTDIR \<or>
        (segs \<noteq> [] \<and> last segs = [] \<and> is_file (node_at fs' (a, normalizeString (\<not> a) cur segs)))) \<and>
     r \<noteq> Some ENOENT \<and> r \<noteq> Some EISDIR"
proof (induction segs arbitrary: cur fs)
  case Nil
  then show ?case by (auto simp: ext_refl frame_refl)
next
  case (Cons seg segs)
  note w = Cons.prems(1) and d = Cons.prems(2) and c = Cons.prems(3) and m = Cons.prems(4)
  have last_tl: "segs \<noteq> [] \<and> last segs = [] \<Longrightarrow> seg # segs \<noteq> [] \<and> last (seg # segs) = []"
    by simp
  show ?case
  proof (cases "seg = [] \<or> seg = ''.''")
    case True
    then have m': "mkdirp a cur segs fs = (r, fs')" using m by auto
    from Cons.IH [OF w d c m'] True show ?thesis by auto
  next
    case nskip: False
    show ?thesis
    proof (cases "seg = ''..''")
      case True
      then have m': "mkdirp a (up a cur) segs fs = (r, fs')" using m by simp
      from up_inv [OF w d c] have d': "node_at fs (a, up a cur) = Some Dir"
        and c': "dots_first (up a cur)" by auto
      from Cons.IH [OF w d' c' m'] True show ?thesis by (auto simp: up_def)
    next
      case name: False
      let ?l = "(a, cur @ [seg])"
      have c1: "dots_first (cur @ [seg])" using dots_first_snoc [OF c] name by blast
      have ns: "normalizeString (\<not> a) cur (seg # segs) = normalizeString (\<not> a) (cur @ [seg]) segs"
        using nskip name by simp
      show ?thesis
      proof (cases "node_at fs ?l")
        case None
        let ?fs1 = "fs(?l \<mapsto> Dir)"
        from None m nskip name have m': "mkdirp a (cur @ [seg]) segs ?fs1 = (r, fs')" by simp
        from make_dir [OF w d None] have w1: "wf_fs ?fs1" and e1: "ext fs ?fs1"
          and f1: "frame {} fs ?fs1" and d1: "node_at ?fs1 ?l = Some Dir" by auto
        note ih0 = Cons.IH [OF w1 d1 c1 m']
        from ih0 have ih:
          "wf_fs fs'" "ext ?fs1 fs'" "frame {} ?fs1 fs'" "mkdirp a (cur @ [seg]) segs fs' = (r, fs')"
          "r = None \<longrightarrow> walk fs' a (cur @ [seg]) segs = None \<and>
                     node_at fs' (a, normalizeString (\<not> a) (cur @ [seg]) segs) = Some Dir"
          "r = Some ENOTDIR \<longrightarrow>
             walk fs' a (cur @ [seg]) segs = Some ENOTDIR \<or>
             (segs \<noteq> [] \<and> last segs = [] \<and>
              is_file (node_at fs' (a, normalizeString (\<not> a) (cur @ [seg]) segs)))"
          "r \<noteq> Some ENOENT" "r \<noteq> Some EISDIR" by blast+
        have dS: "node_at fs' ?l = Some Dir" using ext_dir [OF ih(2) d1] .
        have e: "ext fs fs'" using ext_trans [OF e1 ih(2)] .
        have f: "frame {} fs fs'" using frame_trans [OF f1 ih(3)] by simp
        have again: "mkdirp a cur (seg # segs) fs' = (r, fs')" using nskip name dS ih(4) by simp
        have wk: "walk fs' a cur (seg # segs) =
                    (if list_all (\<lambda>t. t = []) segs then None else walk fs' a (cur @ [seg]) segs)"
          using nskip name dS by simp
        have ok: "r = None \<longrightarrow> walk fs' a cur (seg # segs) = None \<and>
                     node_at fs' (a, normalizeString (\<not> a) cur (seg # segs)) = Some Dir"
          using ih(5) unfolding wk ns by simp
        have nd: "r = Some ENOTDIR \<longrightarrow>
                    walk fs' a cur (seg # segs) = Some ENOTDIR \<or>
                    (seg # segs \<noteq> [] \<and> last (seg # segs) = [] \<and>
                     is_file (node_at fs' (a, normalizeString (\<not> a) cur (seg # segs))))"
        proof
          assume r: "r = Some ENOTDIR"
          have "\<not> list_all (\<lambda>t. t = []) segs"
            using mkdirp_empty [of segs a "cur @ [seg]" ?fs1] m' r by auto
          then have "walk fs' a cur (seg # segs) = walk fs' a (cur @ [seg]) segs" using wk by simp
          then show "walk fs' a cur (seg # segs) = Some ENOTDIR \<or>
                    (seg # segs \<noteq> [] \<and> last (seg # segs) = [] \<and>
                     is_file (node_at fs' (a, normalizeString (\<not> a) cur (seg # segs))))"
            using ih(6) r unfolding ns by auto
        qed
        show ?thesis
          by (intro conjI) (fact ih(1), fact e, fact f, fact again, fact ok, fact nd, fact ih(7), fact ih(8))
      next
        case (Some n)
        show ?thesis
        proof (cases n)
          case (File x)
          with Some m nskip name have r: "r = Some (if segs = [] then EEXIST else ENOTDIR)"
            and eq: "fs' = fs" by auto
          have again: "mkdirp a cur (seg # segs) fs' = (r, fs')" using m eq by simp
          have nd: "r = Some ENOTDIR \<longrightarrow>
                    walk fs' a cur (seg # segs) = Some ENOTDIR \<or>
                    (seg # segs \<noteq> [] \<and> last (seg # segs) = [] \<and>
                     is_file (node_at fs' (a, normalizeString (\<not> a) cur (seg # segs))))"
          proof
            assume "r = Some ENOTDIR"
            with r have sn: "segs \<noteq> []" by (auto split: if_splits)
            show "walk fs' a cur (seg # segs) = Some ENOTDIR \<or>
                    (seg # segs \<noteq> [] \<and> last (seg # segs) = [] \<and>
                     is_file (node_at fs' (a, normalizeString (\<not> a) cur (seg # segs))))"
            proof (cases "list_all (\<lambda>t. t = []) segs")
              case True
              then have "last segs = []" using sn by (auto simp: list_all_iff)
              moreover have "normalizeString (\<not> a) cur (seg # segs) = cur @ [seg]"
                unfolding ns using normalizeString_empty [OF True] .
              ultimately show ?thesis using sn Some File eq by (simp add: is_file_def)
            next
              case False
              then show ?thesis using nskip name Some File eq by simp
            qed
          qed
          show ?thesis using w eq r again nd by (auto simp: ext_refl frame_refl)
        next
          case Dir
          with Some m nskip name have m': "mkdirp a (cur @ [seg]) segs fs = (r, fs')" by simp
          have d1: "node_at fs ?l = Some Dir" using Some Dir by simp
          note ih0 = Cons.IH [OF w d1 c1 m']
          from ih0 have ih:
            "wf_fs fs'" "ext fs fs'" "frame {} fs fs'" "mkdirp a (cur @ [seg]) segs fs' = (r, fs')"
            "r = None \<longrightarrow> walk fs' a (cur @ [seg]) segs = None \<and>
                       node_at fs' (a, normalizeString (\<not> a) (cur @ [seg]) segs) = Some Dir"
            "r = Some ENOTDIR \<longrightarrow>
               walk fs' a (cur @ [seg]) segs = Some ENOTDIR \<or>
               (segs \<noteq> [] \<and> last segs = [] \<and>
                is_file (node_at fs' (a, normalizeString (\<not> a) (cur @ [seg]) segs)))"
            "r \<noteq> Some ENOENT" "r \<noteq> Some EISDIR" by blast+
          have dS: "node_at fs' ?l = Some Dir" using ext_dir [OF ih(2) d1] .
          have again: "mkdirp a cur (seg # segs) fs' = (r, fs')" using nskip name dS ih(4) by simp
          have wk: "walk fs' a cur (seg # segs) =
                      (if list_all (\<lambda>t. t = []) segs then None else walk fs' a (cur @ [seg]) segs)"
            using nskip name dS by simp
          have ok: "r = None \<longrightarrow> walk fs' a cur (seg # segs) = None \<and>
                       node_at fs' (a, normalizeString (\<not> a) cur (seg # segs)) = Some Dir"
            using ih(5) unfolding wk ns by simp
          have nd: "r = Some ENOTDIR \<longrightarrow>
                      walk fs' a cur (seg # segs) = Some ENOTDIR \<or>
                      (seg # segs \<noteq> [] \<and> last (seg # segs) = [] \<and>
                       is_file (node_at fs' (a, normalizeString (\<not> a) cur (seg # segs))))"
          proof
            assume r: "r = Some ENOTDIR"
            have "\<not> list_all (\<lambda>t. t = []) segs"
              using mkdirp_empty [of segs a "cur @ [seg]" fs] m' r by auto
            then have "walk fs' a cur (seg # segs) = walk fs' a (cur @ [seg]) segs" using wk by simp
            then show "walk fs' a cur (seg # segs) = Some ENOTDIR \<or>
                      (seg # segs \<noteq> [] \<and> last (seg # segs) = [] \<and>
                       is_file (node_at fs' (a, normalizeString (\<not> a) cur (seg # segs))))"
              using ih(6) r unfolding ns by auto
          qed
          show ?thesis
            by (intro conjI) (fact ih(1), fact ih(2), fact ih(3), fact again, fact ok, fact nd,
                fact ih(7), fact ih(8))
        qed
      qed
    qed
  qed
qed

lemma split_slash_ne: "split_slash p \<noteq> []"
  by (induction p) (auto split: list.splits)

lemma split_slash_last: "p \<noteq> [] \<Longrightarrow> last (split_slash p) = [] \<Longrightarrow> last p = CHR ''/''"
proof (induction p)
  case Nil
  then show ?case by simp
next
  case (Cons c cs)
  show ?case
  proof (cases "c = CHR ''/''")
    case True
    then have "last (split_slash cs) = []" using Cons.prems(2) split_slash_ne [of cs] by simp
    then show ?thesis using Cons.IH True by (cases "cs = []") auto
  next
    case False
    obtain seg segs where s: "split_slash cs = seg # segs"
      using split_slash_ne [of cs] by (cases "split_slash cs") auto
    with False Cons.prems(2) have "segs \<noteq> []" "last segs = []" by (auto split: if_splits)
    then have "last (split_slash cs) = []" "cs \<noteq> []" using s by auto
    then show ?thesis using Cons.IH by simp
  qed
qed

lemma normalize_loc:
  "p \<noteq> [] \<Longrightarrow> loc (normalize p) = (hd p = CHR ''/'', normalizeString (hd p \<noteq> CHR ''/'') [] (split_slash p))"
  by (simp add: normalize_def loc_def Let_def)

lemma mkdirSync_str_props:
  assumes w: "wf_fs fs" and m: "mkdirSync_str p fs = (r, fs1)"
  shows "wf_fs fs1 \<and> ext fs fs1 \<and> frame {} fs fs1 \<and> mkdirSync_str p fs1 = (r, fs1) \<and>
         (r = None \<longrightarrow> existsSync_str fs1 p \<and> node_at fs1 (loc (normalize p)) = Some Dir) \<and>
         (r = Some ENOTDIR \<or> r = Some ENOENT \<longrightarrow> \<not> existsSync_str fs1 p) \<and> r \<noteq> Some EISDIR"
proof (cases "p = []")
  case True
  then show ?thesis using w m
    by (auto simp: mkdirSync_str_def ext_refl frame_refl existsSync_str_def resolve_def)
next
  case False
  let ?a = "hd p = CHR ''/''"
  from False m have mp: "mkdirp ?a [] (split_slash p) fs = (r, fs1)" by (simp add: mkdirSync_str_def)
  have d0: "node_at fs (?a, []) = Some Dir" by (simp add: node_at_def dots_def)
  note P = mkdirp_props [OF w d0 dots_first_Nil mp]
  from P have w1: "wf_fs fs1" and e1: "ext fs fs1" and f1: "frame {} fs fs1"
    and again: "mkdirp ?a [] (split_slash p) fs1 = (r, fs1)"
    and ok: "r = None \<longrightarrow> walk fs1 ?a [] (split_slash p) = None \<and>
               node_at fs1 (?a, normalizeString (\<not> ?a) [] (split_slash p)) = Some Dir"
    and nd: "r = Some ENOTDIR \<longrightarrow>
               walk fs1 ?a [] (split_slash p) = Some ENOTDIR \<or>
               (split_slash p \<noteq> [] \<and> last (split_slash p) = [] \<and>
                is_file (node_at fs1 (?a, normalizeString (\<not> ?a) [] (split_slash p))))"
    and ne: "r \<noteq> Some ENOENT" and ni: "r \<noteq> Some EISDIR" by blast+
  have lo: "loc (normalize p) = (?a, normalizeString (\<not> ?a) [] (split_slash p))"
    using normalize_loc [OF False] by simp
  have a: "mkdirSync_str p fs1 = (r, fs1)" using again False by (simp add: mkdirSync_str_def)
  have b: "r = None \<longrightarrow> existsSync_str fs1 p \<and> node_at fs1 (loc (normalize p)) = Some Dir"
  proof
    assume "r = None"
    with ok have wk: "walk fs1 ?a [] (split_slash p) = None"
      and dn: "node_at fs1 (loc (normalize p)) = Some Dir" unfolding lo by auto
    have "existsSync fs1 (normalize p)" using dn by (simp add: existsSync_wf [OF w1])
    then show "existsSync_str fs1 p \<and> node_at fs1 (loc (normalize p)) = Some Dir"
      using wk dn False by (simp add: existsSync_str_def resolve_def)
  qed
  have c: "r = Some ENOTDIR \<or> r = Some ENOENT \<longrightarrow> \<not> existsSync_str fs1 p"
  proof
    assume "r = Some ENOTDIR \<or> r = Some ENOENT"
    with ne have r: "r = Some ENOTDIR" by simp
    from nd r consider "walk fs1 ?a [] (split_slash p) = Some ENOTDIR"
      | "last (split_slash p) = []" "is_file (node_at fs1 (loc (normalize p)))"
      unfolding lo by blast
    then show "\<not> existsSync_str fs1 p"
    proof cases
      case 1
      then show ?thesis using False by (simp add: existsSync_str_def resolve_def)
    next
      case 2
      have "trailing (normalize p)"
        using split_slash_last [OF False 2(1)] False by (simp add: normalize_def Let_def)
      then have "\<not> existsSync fs1 (normalize p)"
        using 2(2) by (auto simp: existsSync_def is_file_def split: option.splits node.splits)
      then show ?thesis by (auto simp: existsSync_str_def split: sum.splits simp: resolve_def split: if_splits option.splits)
    qed
  qed
  show ?thesis
    by (intro conjI) (fact w1, fact e1, fact f1, fact a, fact b, fact c, fact ni)
qed

lemma ensureDir_str_exists: "existsSync_str fs p \<Longrightarrow> ensureDir_str p fs = (None, fs)"
  by (simp add: ensureDir_str_def)

lemma ensureDir_str_None:
  assumes w: "wf_fs fs" and e: "ensureDir_str p fs = (None, fs1)"
  shows "wf_fs fs1 \<and> ext fs fs1 \<and> frame {} fs fs1 \<and> existsSync_str fs1 p \<and>
         (\<not> existsSync_str fs p \<longrightarrow> node_at fs1 (loc (normalize p)) = Some Dir)"
proof (cases "existsSync_str fs p")
  case True
  then show ?thesis using w e by (simp add: ensureDir_str_def ext_refl frame_refl)
next
  case False
  with e have "mkdirSync_str p fs = (None, fs1)" by (simp add: ensureDir_str_def)
  from mkdirSync_str_props [OF w this] show ?thesis by simp
qed

lemma ensureDir_str_Some:
  assumes w: "wf_fs fs" and e: "ensureDir_str p fs = (Some c, fs1)"
    and h: "c = EEXIST \<longrightarrow> fs1 = fs"
  shows "ensureDir_str p fs1 = (Some c, fs1)"
proof (cases "c = EEXIST")
  case True
  then show ?thesis using e h by simp
next
  case False
  from e have ne: "\<not> existsSync_str fs p" and m: "mkdirSync_str p fs = (Some c, fs1)"
    by (auto simp: ensureDir_str_def split: if_splits)
  from mkdirSync_str_props [OF w m] have again: "mkdirSync_str p fs1 = (Some c, fs1)"
    and no: "Some c = Some ENOTDIR \<or> Some c = Some ENOENT \<longrightarrow> \<not> existsSync_str fs1 p"
    and ni: "Some c \<noteq> Some EISDIR" by blast+
  have "c = ENOTDIR \<or> c = ENOENT" using False ni by (cases c) auto
  then have "\<not> existsSync_str fs1 p" using no by simp
  then show ?thesis using again by (simp add: ensureDir_str_def)
qed



text \<open>What \<^verbatim>\<open>saveJson\<close> wrote is what \<^verbatim>\<open>readFile\<close> of the same path returns.\<close>

lemma blocked_write:
  assumes "\<not> dots (snd l)" "\<not> blocked fs l"
  shows "\<not> blocked (fs(l \<mapsto> n)) l"
proof
  assume "blocked (fs(l \<mapsto> n)) l"
  then obtain q where q: "prefix q (snd l)" "q \<noteq> snd l" "is_file (node_at (fs(l \<mapsto> n)) (fst l, q))"
    by (auto simp: blocked_def list_ex_iff)
  have "(fst l, q) \<noteq> l" using q(2) by (cases l) auto
  then have "is_file (node_at fs (fst l, q))" using q(3) by (simp add: node_at_write [OF assms(1)])
  then show False using assms(2) q(1,2) by (auto simp: blocked_def list_ex_iff)
qed

lemma saveJson_readFile:
  assumes "saveJson toText data filePath fs = (None, fs')"
  shows "readFile filePath fs' = Inr (toText data)"
proof -
  from assms obtain fs1 where wr: "writeFileSync_str filePath (toText data) fs1 = Inr fs'"
    by (auto simp: saveJson_def Let_def split: prod.splits option.splits sum.splits)
  let ?q = "normalize filePath"
  from wr have ne: "filePath \<noteq> []"
    and wk: "walk fs1 (hd filePath = CHR ''/'') [] (split_slash filePath) = None"
    and w: "writeFileSync ?q (toText data) fs1 = Inr fs'"
    by (auto simp: writeFileSync_str_def resolve_def split: if_splits option.splits sum.splits)
  from writeFileSync_Inr [OF w] have eq: "fs' = fs1(loc ?q \<mapsto> File (toText data))"
    and nt: "\<not> trailing ?q" and nd: "node_at fs1 (loc ?q) \<noteq> Some Dir"
    and nb: "\<not> blocked fs1 (loc ?q)" by auto
  have ndl: "\<not> dots (snd (loc ?q))" using nd by (rule not_dots_target)
  have e: "ext fs1 fs'" unfolding eq using nd by (rule ext_write)
  have wk': "walk fs' (hd filePath = CHR ''/'') [] (split_slash filePath) = None"
    using walk_ext [OF e wk] .
  have r: "resolve fs' filePath = Inr ?q" using ne wk' by (simp add: resolve_def)
  have nb': "\<not> blocked fs' (loc ?q)" unfolding eq using ndl nb by (rule blocked_write)
  have n: "node_at fs' (loc ?q) = Some (File (toText data))"
    unfolding eq by (simp add: node_at_write [OF ndl])
  have "existsSync_str fs' filePath" using r nb' n nt by (simp add: existsSync_str_def existsSync_def)
  moreover have "readFileSync_str filePath fs' = Inr (toText data)"
    using r nb' n nt by (simp add: readFileSync_str_def readFileSync_def)
  ultimately show ?thesis by (simp add: readFile_def)
qed

lemma saveOutput_None:
  assumes w: "wf_fs fs" and so: "saveOutput code out fs = (None, S)"
  shows "\<exists>fs1. ensureDir_str out fs = (None, fs1) \<and> wf_fs fs1 \<and> ext fs fs1 \<and>
               frame {} fs fs1 \<and> existsSync_str fs1 out \<and>
               (\<not> existsSync_str fs out \<longrightarrow> node_at fs1 (loc (normalize out)) = Some Dir) \<and>
               run_steps (steps_of code out) fs1 = (None, S)"
proof (cases "ensureDir_str out fs")
  case (Pair r fs1)
  show ?thesis
  proof (cases r)
    case (Some e)
    with Pair so show ?thesis by (simp add: saveOutput_steps)
  next
    case None
    with Pair so have "run_steps (steps_of code out) fs1 = (None, S)" by (simp add: saveOutput_steps)
    moreover have "ensureDir_str out fs = (None, fs1)" using Pair None by simp
    ultimately show ?thesis using ensureDir_str_None [OF w] by blast
  qed
qed

lemma saveOutput_wf:
  assumes w: "wf_fs fs" and so: "saveOutput code out fs = (None, S)"
  shows "wf_fs S"
proof -
  from saveOutput_None [OF w so] obtain fs1 where
    w1: "wf_fs fs1" and rs: "run_steps (steps_of code out) fs1 = (None, S)" by blast
  from run_steps_props [OF w1 rs] show ?thesis by simp
qed

text \<open>
  C6, as amended: on a well-formed file system, unless the creation of the output directory
  fails with \<^verbatim>\<open>EEXIST\<close> after having made a directory, running the output writer a second
  time with the same GeneratedCode and output directory, on the file system the first run left,
  ends as the first run did and leaves the file system exactly as the first run left it. This
  holds whether the first run completed or stopped at an error.
\<close>

theorem saveOutput_idempotent:
  assumes w: "wf_fs fs"
    and h: "fst (ensureDir_str outputDir fs) = Some EEXIST \<longrightarrow> snd (ensureDir_str outputDir fs) = fs"
  shows "saveOutput code outputDir (snd (saveOutput code outputDir fs)) = saveOutput code outputDir fs"
proof (cases "ensureDir_str outputDir fs")
  case (Pair o1 fs1)
  show ?thesis
  proof (cases o1)
    case (Some e)
    have en: "ensureDir_str outputDir fs = (Some e, fs1)" using Pair Some by simp
    have "e = EEXIST \<longrightarrow> fs1 = fs" using h en by simp
    from ensureDir_str_Some [OF w en this] show ?thesis using en by (simp add: saveOutput_steps)
  next
    case None
    have en: "ensureDir_str outputDir fs = (None, fs1)" using Pair None by simp
    obtain r S where rs: "run_steps (steps_of code outputDir) fs1 = (r, S)"
      by (cases "run_steps (steps_of code outputDir) fs1") auto
    have so: "saveOutput code outputDir fs = (r, S)" using en rs by (simp add: saveOutput_steps)
    from ensureDir_str_None [OF w en] have w1: "wf_fs fs1" and ex1: "existsSync_str fs1 outputDir"
      by auto
    from run_steps_props [OF w1 rs] have wS: "wf_fs S" and eS: "ext fs1 S" by auto
    have "existsSync_str S outputDir" using existsSync_str_ext [OF w1 wS eS ex1] .
    then have "ensureDir_str outputDir S = (None, S)" by (rule ensureDir_str_exists)
    moreover have "run_steps (steps_of code outputDir) S = (r, S)" using run_steps_idem [OF w1 rs] .
    ultimately have "saveOutput code outputDir S = (r, S)" by (simp add: saveOutput_steps)
    then show ?thesis using so by simp
  qed
qed

lemma wf_fs_empty: "wf_fs Map.empty"
  by (simp add: wf_fs_def)

theorem saveOutput_idempotent_witness:
  "wf_fs Map.empty \<and> fst (ensureDir_str ''./output'' Map.empty) = None \<and>
   saveOutput card_code ''./output'' (snd (saveOutput card_code ''./output'' Map.empty)) =
     saveOutput card_code ''./output'' Map.empty"
proof -
  have n: "fst (ensureDir_str ''./output'' Map.empty) = None" by code_simp
  then have "fst (ensureDir_str ''./output'' Map.empty) = Some EEXIST \<longrightarrow>
               snd (ensureDir_str ''./output'' Map.empty) = Map.empty" by simp
  from saveOutput_idempotent [OF wf_fs_empty this, of card_code] show ?thesis
    using wf_fs_empty n by simp
qed

lemma wf_fs_file_fs: "wf_fs file_fs"
  by (auto simp: wf_fs_def file_fs_def node_at_def dots_def split: if_splits)

text \<open>
  The claim as stated fails where the output directory is written as a path through a missing
  directory to an existing regular file: with \<^verbatim>\<open>x/../f\<close>, where \<^verbatim>\<open>f\<close> is a regular file
  and \<^verbatim>\<open>x\<close> does not exist, the first run finds that the path does not exist, makes
  \<^verbatim>\<open>x\<close> on the way and throws \<^verbatim>\<open>EEXIST\<close> at \<^verbatim>\<open>f\<close>; the second run finds that the path
  exists, goes on to the listed file \<^verbatim>\<open>../z\<close> and writes \<^verbatim>\<open>z\<close>, which the first run
  did not.
\<close>

theorem saveOutput_idempotent_counterexample:
  "wf_fs file_fs \<and>
   fst (saveOutput escape_code ''x/../f'' file_fs) = Some EEXIST \<and>
   snd (saveOutput escape_code ''x/../f'' file_fs) (False, [''x'']) = Some Dir \<and>
   snd (saveOutput escape_code ''x/../f'' file_fs) (False, [''z'']) = None \<and>
   fst (saveOutput escape_code ''x/../f'' (snd (saveOutput escape_code ''x/../f'' file_fs))) = None \<and>
   snd (saveOutput escape_code ''x/../f'' (snd (saveOutput escape_code ''x/../f'' file_fs)))
     (False, [''z'']) = Some (File ''c'')"
proof -
  have "fst (saveOutput escape_code ''x/../f'' file_fs) = Some EEXIST \<and>
   snd (saveOutput escape_code ''x/../f'' file_fs) (False, [''x'']) = Some Dir \<and>
   snd (saveOutput escape_code ''x/../f'' file_fs) (False, [''z'']) = None \<and>
   fst (saveOutput escape_code ''x/../f'' (snd (saveOutput escape_code ''x/../f'' file_fs))) = None \<and>
   snd (saveOutput escape_code ''x/../f'' (snd (saveOutput escape_code ''x/../f'' file_fs)))
     (False, [''z'']) = Some (File ''c'')"
    by code_simp
  then show ?thesis using wf_fs_file_fs by simp
qed






















section \<open>Extraction of the JSON object\<close>

lemma landing_parse: "JSON_parse landing_json = Inr landing_tree"
  by code_simp

lemma responseMatch_object:
  assumes "CHR ''{'' \<notin> set pre" "CHR ''}'' \<notin> set post"
    and "obj \<noteq> []" "hd obj = CHR ''{''" "last obj = CHR ''}''"
  shows "responseMatch (pre @ obj @ post) = Some obj"
proof -
  obtain t where t: "obj = CHR ''{'' # t" using assms(3,4) by (cases obj) auto
  have "t \<noteq> []" using assms(5) t by auto
  then have "t = butlast t @ [last t]" by simp
  moreover have "last t = CHR ''}''" using assms(5) t \<open>t \<noteq> []\<close> by simp
  ultimately have o: "obj = CHR ''{'' # butlast t @ ''}''" using t by simp
  show ?thesis
    using responseMatch_span [OF assms(1,2), of "butlast t"] by (subst (1 2) o) simp
qed

lemma no_span_no_close: "CHR ''}'' \<notin> set response \<Longrightarrow> no_span response"
  unfolding no_span_def by (metis nth_mem)

text \<open>
  C1, as amended: for every response text made of prose, then the text of one well-formed JSON
  object, then prose, where the prose before has no \<^verbatim>\<open>{\<close> and the prose after has no
  \<^verbatim>\<open>}\<close>, the extraction step of each of the five operations yields exactly what
  \<^verbatim>\<open>JSON.parse\<close> yields on the object's text; and for every response text with no span
  \<^verbatim>\<open>{...}\<close> each operation fails with its own "failed to parse" error.
\<close>

theorem extraction_between_prose:
  "(CHR ''{'' \<notin> set pre \<and> CHR ''}'' \<notin> set post \<and>
    obj \<noteq> [] \<and> hd obj = CHR ''{'' \<and> last obj = CHR ''}'' \<and> JSON_parse obj = Inr v \<longrightarrow>
      generateDesign_parse (pre @ obj @ post) = Inr v \<and>
      analyzeImage_parse (pre @ obj @ post) = Inr v \<and>
      refineDesign_parse (pre @ obj @ post) = Inr v \<and>
      generateCode_parse (pre @ obj @ post) = Inr v \<and>
      addFeature_parse (pre @ obj @ post) = Inr v) \<and>
   (no_span response \<longrightarrow>
      generateDesign_parse response =
        Inl (Error ''Failed to parse design specification from Gemini response'') \<and>
      analyzeImage_parse response = Inl (Error ''Failed to parse design from image'') \<and>
      refineDesign_parse response = Inl (Error ''Failed to parse refined design'') \<and>
      generateCode_parse response = Inl (Error ''Failed to parse code from Claude response'') \<and>
      addFeature_parse response = Inl (Error ''Failed to parse feature addition response''))"
proof (intro conjI impI)
  assume a: "CHR ''{'' \<notin> set pre \<and> CHR ''}'' \<notin> set post \<and>
    obj \<noteq> [] \<and> hd obj = CHR ''{'' \<and> last obj = CHR ''}'' \<and> JSON_parse obj = Inr v"
  then have m: "responseMatch (pre @ obj @ post) = Some obj"
    using responseMatch_object [of pre post obj] by blast
  from a have p: "JSON_parse obj = Inr v" by blast
  show "generateDesign_parse (pre @ obj @ post) = Inr v"
    unfolding generateDesign_parse_def m using p by simp
  show "analyzeImage_parse (pre @ obj @ post) = Inr v"
    unfolding analyzeImage_parse_def m using p by simp
  show "refineDesign_parse (pre @ obj @ post) = Inr v"
    unfolding refineDesign_parse_def m using p by simp
  show "generateCode_parse (pre @ obj @ post) = Inr v"
    unfolding generateCode_parse_def m using p by simp
  show "addFeature_parse (pre @ obj @ post) = Inr v"
    unfolding addFeature_parse_def m using p by simp
next
  assume "no_span response"
  then have n: "responseMatch response = None"
    unfolding no_span_def by (rule responseMatch_None)
  show "generateDesign_parse response =
        Inl (Error ''Failed to parse design specification from Gemini response'')"
    unfolding generateDesign_parse_def n by simp
  show "analyzeImage_parse response = Inl (Error ''Failed to parse design from image'')"
    unfolding analyzeImage_parse_def n by simp
  show "refineDesign_parse response = Inl (Error ''Failed to parse refined design'')"
    unfolding refineDesign_parse_def n by simp
  show "generateCode_parse response = Inl (Error ''Failed to parse code from Claude response'')"
    unfolding generateCode_parse_def n by simp
  show "addFeature_parse response = Inl (Error ''Failed to parse feature addition response'')"
    unfolding addFeature_parse_def n by simp
qed

theorem extraction_between_prose_witness:
  "generateDesign_parse (fenced_pre @ landing_json @ fenced_post) = Inr landing_tree \<and>
   map_of (case landing_tree of JObject ms \<Rightarrow> ms | _ \<Rightarrow> []) ''name'' = Some (JString ''Landing'') \<and>
   no_span refusal \<and>
   generateCode_parse refusal = Inl (Error ''Failed to parse code from Claude response'')"
proof -
  have ns: "no_span refusal"
    by (rule no_span_no_close) (simp add: refusal_def)
  have a: "CHR ''{'' \<notin> set fenced_pre" by (simp add: fenced_pre_def)
  have b: "CHR ''}'' \<notin> set fenced_post" by (simp add: fenced_post_def)
  have c: "landing_json \<noteq> [] \<and> hd landing_json = CHR ''{'' \<and> last landing_json = CHR ''}''"
    by (simp add: landing_json_def)
  note t = extraction_between_prose [of fenced_pre fenced_post landing_json landing_tree refusal]
  have "generateDesign_parse (fenced_pre @ landing_json @ fenced_post) = Inr landing_tree"
    using t a b c landing_parse by blast
  moreover have "generateCode_parse refusal = Inl (Error ''Failed to parse code from Claude response'')"
    using t ns by blast
  moreover have "map_of (case landing_tree of JObject ms \<Rightarrow> ms | _ \<Rightarrow> []) ''name'' = Some (JString ''Landing'')"
    by (simp add: landing_tree_def)
  ultimately show ?thesis using ns by blast
qed

text \<open>
  The claim as stated fails where the prose has a brace of its own: in the response
  \<^verbatim>\<open>Use {name} here: {"a":1}\<close> the only well-formed object is \<^verbatim>\<open>{"a":1}\<close>, the match
  starts at the brace of the prose, and \<^verbatim>\<open>JSON.parse\<close> throws on the span.
\<close>

theorem extraction_counterexample:
  \<open>JSON_parse ''{"a":1}'' = Inr (JObject [(''a'', JNumber ''1'')]) \<and>
   generateDesign_parse (''Use {name} here: '' @ ''{"a":1}'') = Inl SyntaxError\<close>
  by code_simp

section \<open>The code service\<close>

declare show_nat.simps [simp del]


lemma unlink_absent:
  "\<not> dots (snd (loc p)) \<Longrightarrow> fs (loc p) = None \<Longrightarrow> \<exists>c. unlinkSync p fs = Inl c"
  by (auto simp: unlinkSync_def node_at_def)


lemma runClaudeCodeInteractive_disk:
  "disk (snd (runClaudeCodeInteractive w prompt s)) = disk s"
  by (simp add: runClaudeCodeInteractive_def emit_def Let_def split: child.splits)



text \<open>What the catch block does once the prompt file has been removed.\<close>

lemma catch_absent:
  assumes u: "unlinkSync p (disk s) = Inl c"
  shows "callClaudeCode_catch w prompt p error s =
           (Inl (SystemError c), snd (runClaudeCodeInteractive w prompt s))"
proof -
  obtain r s1 where rs: "runClaudeCodeInteractive w prompt s = (r, s1)"
    by (cases "runClaudeCodeInteractive w prompt s") auto
  have "disk s1 = disk s" using runClaudeCodeInteractive_disk [of w prompt s] rs by simp
  then have u1: "unlinkSync p (disk s1) = Inl c" using u by simp
  show ?thesis
    unfolding callClaudeCode_catch_def rs
    by (cases r) (simp_all add: u1 callClaudeCode_inner_catch_def)
qed


text \<open>
  C8, at the failing input: the first strategy exits normally with text on standard error only,
  and the second strategy fails with exit code 127. The prompt file is removed right after the
  first strategy; the throw for the empty output lands in the catch block, whose two further
  removals of the same file both throw \<^verbatim>\<open>ENOENT\<close>. What reaches the caller is that
  \<^verbatim>\<open>ENOENT\<close>, in place of the operation's own error.
\<close>

theorem callClaudeCode_cleanup_masks_error:
  "fst (runClaudeCodeInteractive stderr_world_fail ''hi'' tmp_sys)
     = Inl (Error ''Claude Code exited with code 127'') \<and>
   fst (callClaudeCode stderr_world_fail ''hi'' tmp_sys) = Inl (SystemError ENOENT)"
  by code_simp

text \<open>
  C9, at the failing input: the first strategy exits normally with text on standard error only,
  which the code treats as a failure, and the second strategy succeeds with the output
  \<^verbatim>\<open>ok\<close>. The operation does not return that output: the removal of the prompt file,
  already removed, throws \<^verbatim>\<open>ENOENT\<close>, and that error reaches the caller.
\<close>

theorem callClaudeCode_secondary_output_lost:
  "fst (runClaudeCodeInteractive stderr_world_ok ''hi'' tmp_sys) = Inr ''ok'' \<and>
   fst (callClaudeCode stderr_world_ok ''hi'' tmp_sys) = Inl (SystemError ENOENT)"
  by code_simp

text \<open>
  For a framework string that is neither a key of the table nor a property of
  \<^verbatim>\<open>Object.prototype\<close> the instructions are those of \<^verbatim>\<open>react\<close>.
\<close>

lemma getFrameworkInstructions_default:
  "framework \<notin> fst ` set instructionsTable \<Longrightarrow> objectPrototype framework = None \<Longrightarrow>
     getFrameworkInstructions framework = getFrameworkInstructions ''react''"
proof -
  assume a: "framework \<notin> fst ` set instructionsTable" and b: "objectPrototype framework = None"
  from a have "map_of instructionsTable framework = None" by (simp add: map_of_eq_None_iff)
  then show ?thesis using b by (simp add: getFrameworkInstructions_def getProperty_def isTruthy_def)
qed

text \<open>
  C4, at the failing input: for the framework string \<^verbatim>\<open>constructor\<close>, outside the table, the
  read \<^verbatim>\<open>instructions[framework]\<close> finds the inherited \<^verbatim>\<open>Object\<close> function, which is
  truthy, so the default block is not taken and the prompt carries the text of a built-in
  function in place of an instruction block. A string such as \<^verbatim>\<open>svelte\<close> does get the
  default block.
\<close>

theorem getFrameworkInstructions_inherited:
  "getFrameworkInstructions ''constructor'' = Some (JsNative ''Object'') \<and>
   toString (getFrameworkInstructions ''constructor'') = ''function Object() { [native code] }'' \<and>
   getFrameworkInstructions ''constructor'' \<noteq> getFrameworkInstructions ''react'' \<and>
   getFrameworkInstructions ''svelte'' = getFrameworkInstructions ''react''"
  by code_simp

section \<open>Requests without credentials\<close>

lemma gemini_calls_emit [simp]:
  "gemini_calls (emit e s) = gemini_calls s @ (if is_gemini_call e then [e] else [])"
  by (simp add: gemini_calls_def emit_def)

lemma anthropic_calls_emit [simp]:
  "anthropic_calls (emit e s) = anthropic_calls s @ (if is_anthropic_call e then [e] else [])"
  by (simp add: anthropic_calls_def emit_def)

lemma calls_disk [simp]:
  "gemini_calls (s\<lparr>disk := d\<rparr>) = gemini_calls s" "anthropic_calls (s\<lparr>disk := d\<rparr>) = anthropic_calls s"
  by (simp_all add: gemini_calls_def anthropic_calls_def)

lemma is_call_simps [simp]:
  "\<not> is_gemini_call (Exec c)" "\<not> is_gemini_call (Spawn c a)" "\<not> is_gemini_call (Fail m)"
  "\<not> is_gemini_call (Caught e)" "\<not> is_gemini_call (AnthropicSdk p)"
  "is_gemini_call (GeminiSdk ps)" "is_gemini_call (GeminiFetch u)"
  "\<not> is_anthropic_call (Exec c)" "\<not> is_anthropic_call (Spawn c a)" "\<not> is_anthropic_call (Fail m)"
  "\<not> is_anthropic_call (Caught e)" "is_anthropic_call (AnthropicSdk p)"
  "\<not> is_anthropic_call (GeminiSdk ps)" "\<not> is_anthropic_call (GeminiFetch u)"
  by (simp_all add: is_gemini_call_def is_anthropic_call_def)

lemma new_GeminiService_unconfigured:
  "gemini_unconfigured w \<Longrightarrow> new_GeminiService w = \<lparr>model = None, useOAuth = True\<rparr>"
  by (simp add: gemini_unconfigured_def new_GeminiService_def Let_def)

lemma getAccessToken_unconfigured:
  "gemini_unconfigured w \<Longrightarrow>
     getAccessToken w s = (Inl (Error oauthNotConfigured), emit (Exec gcloudTokenCommand) s)"
  by (cases "execAsync w gcloudTokenCommand")
     (simp_all add: gemini_unconfigured_def getAccessToken_def gcloudTokenCommand_def Let_def)

lemma callGeminiAPI_unconfigured:
  "gemini_unconfigured w \<Longrightarrow>
     callGeminiAPI w (new_GeminiService w) prompt s =
       (Inl (Error oauthNotConfigured), emit (Exec gcloudTokenCommand) s)"
  by (simp add: callGeminiAPI_def new_GeminiService_unconfigured getAccessToken_unconfigured)

lemma generateDesign_unconfigured:
  "gemini_unconfigured w \<Longrightarrow>
     generateDesign w (new_GeminiService w) prompt s =
       (Inl (Error oauthNotConfigured), emit (Exec gcloudTokenCommand) s)"
  by (simp add: generateDesign_def callGeminiAPI_unconfigured)



lemma saveJson_step_fst: "fst (saveJson_step w r f s) \<le> 1"
  by (simp add: saveJson_step_def split: prod.splits option.splits)



lemma designCommand_generate_unconfigured:
  assumes "gemini_unconfigured w" "prompt \<noteq> []"
  shows "designCommand w ''generate'' (Some prompt) options s =
           (1, emit (Caught (Error oauthNotConfigured)) (emit (Exec gcloudTokenCommand) s))"
  using assms(2) by (simp add: designCommand_def Let_def generateDesign_unconfigured [OF assms(1)])




















end
